theory Spec2Isabelle
  imports Complex_Main "HOL-Library.AList"
begin

section \<open>Data model\<close>

text \<open>
  The scheduler reads three JSON collections, lists of objects. The model covers the inputs
  in which every object holds the keys the code indexes (\<^verbatim>\<open>id\<close>, \<^verbatim>\<open>name\<close>,
  \<^verbatim>\<open>start_time\<close>, \<^verbatim>\<open>end_time\<close>), a list of skills is a list of strings and a capacity is
  an integer of any size; a key read with \<^verbatim>\<open>dict.get(key, default)\<close> is an optional
  field. (On an object that lacks an indexed key, or whose list of skills is null, Python
  raises \<^verbatim>\<open>KeyError\<close> or \<^verbatim>\<open>TypeError\<close> when the field is used.) An identifier is a JSON
  string or a JSON integer: the code copies and compares
  identifiers as they are, and renders them with \<^verbatim>\<open>str\<close> only where it writes the
  statistics. A calendar date is modelled by its day number (its ISO rendering is
  one-to-one), a Python float by a real.
\<close>

datatype ident = IdStr string | IdInt int

text \<open>\<^verbatim>\<open>str\<close> on an identifier: a string is its own rendering, an integer is written in
  decimal.\<close>

definition digit :: "nat \<Rightarrow> char" where
  "digit n = ''0123456789'' ! n"

fun str_nat :: "nat \<Rightarrow> string" where
  "str_nat n = (if n < 10 then [digit n] else str_nat (n div 10) @ [digit (n mod 10)])"

declare str_nat.simps [simp del]

definition str_int :: "int \<Rightarrow> string" where
  "str_int i = (if i < 0 then CHR ''-'' # str_nat (nat (- i)) else str_nat (nat i))"

fun str :: "ident \<Rightarrow> string" where
  "str (IdStr s) = s"
| "str (IdInt i) = str_int i"

record employee =
  e_id :: ident
  e_name :: string
  skills :: "string list option"

record location =
  l_id :: ident
  l_name :: string
  required_skills :: "string list option"
  capacity :: "int option"

record shift =
  s_id :: ident
  s_name :: string
  s_start_time :: string
  s_end_time :: string

record scheduler =
  employees :: "employee list"
  locations :: "location list"
  shifts :: "shift list"
  num_days :: nat
  min_employees_per_shift :: int
  max_shifts_per_employee_per_week :: int
  min_shifts_per_employee_per_week :: int
  num_employees :: nat
  num_locations :: nat
  num_shifts_per_day :: nat
  dates :: "int list"

text \<open>\<^verbatim>\<open>ShiftScheduler.__init__\<close>, after the three files are loaded; \<open>start_date\<close> is
  the day number of today.\<close>

definition init :: "employee list \<Rightarrow> location list \<Rightarrow> shift list \<Rightarrow> int \<Rightarrow> scheduler" where
  "init emps locs shs start_date =
     \<lparr> employees = emps, locations = locs, shifts = shs,
       num_days = 14,
       min_employees_per_shift = 2,
       max_shifts_per_employee_per_week = 10,
       min_shifts_per_employee_per_week = 5,
       num_employees = length emps,
       num_locations = length locs,
       num_shifts_per_day = length shs,
       dates = map (\<lambda>i. start_date + int i) [0..<14] \<rparr>"

text \<open>\<^verbatim>\<open>dict.get(key, default)\<close> on an optional field.\<close>

definition get_or :: "'a option \<Rightarrow> 'a \<Rightarrow> 'a" where
  "get_or field dflt = (case field of None \<Rightarrow> dflt | Some v \<Rightarrow> v)"

definition employee_has_required_skills :: "employee \<Rightarrow> location \<Rightarrow> bool" where
  "employee_has_required_skills emp loc =
     (let employee_skills = set (get_or (skills emp) []);
          required = set (get_or (required_skills loc) [])
      in employee_skills \<inter> required \<noteq> {})"

section \<open>The constraint model\<close>

text \<open>
  A decision variable is identified with its key \<open>(e, d, l, s)\<close>; the dictionary
  \<^verbatim>\<open>shifts\<close> of \<^verbatim>\<open>generate_schedule\<close> is the list of its keys in insertion order.
  \<^verbatim>\<open>model.Add(sum(vars) >= n)\<close> and \<^verbatim>\<open>model.Add(sum(vars) <= n)\<close> are the two kinds of
  linear constraint the code emits.
\<close>

type_synonym key = "nat \<times> nat \<times> nat \<times> nat"

datatype constraint = AddGe "key list" int | AddLe "key list" int

record cp_model =
  variables :: "key list"
  constraints :: "constraint list"
  objective :: "(nat \<times> key list list) option"

definition shift_vars :: "scheduler \<Rightarrow> key list" where
  "shift_vars sch =
     [(e, d, l, s).
        e \<leftarrow> [0..<num_employees sch],
        d \<leftarrow> [0..<num_days sch],
        l \<leftarrow> [0..<num_locations sch],
        s \<leftarrow> [0..<num_shifts_per_day sch],
        employee_has_required_skills (employees sch ! e) (locations sch ! l)]"

definition employees_for_shift :: "scheduler \<Rightarrow> key list \<Rightarrow> nat \<Rightarrow> nat \<Rightarrow> nat \<Rightarrow> key list" where
  "employees_for_shift sch vars d l s =
     [(e, d, l, s). e \<leftarrow> [0..<num_employees sch], (e, d, l, s) \<in> set vars]"

definition constraint1 :: "scheduler \<Rightarrow> key list \<Rightarrow> constraint list" where
  "constraint1 sch vars =
     [AddGe (employees_for_shift sch vars d l s) (min_employees_per_shift sch).
        d \<leftarrow> [0..<num_days sch],
        l \<leftarrow> [0..<num_locations sch],
        s \<leftarrow> [0..<num_shifts_per_day sch],
        employees_for_shift sch vars d l s \<noteq> []]"

definition constraint2 :: "scheduler \<Rightarrow> key list \<Rightarrow> constraint list" where
  "constraint2 sch vars =
     [AddLe (employees_for_shift sch vars d l s) (get_or (capacity (locations sch ! l)) 20).
        d \<leftarrow> [0..<num_days sch],
        l \<leftarrow> [0..<num_locations sch],
        s \<leftarrow> [0..<num_shifts_per_day sch],
        employees_for_shift sch vars d l s \<noteq> []]"

definition shifts_for_time :: "scheduler \<Rightarrow> key list \<Rightarrow> nat \<Rightarrow> nat \<Rightarrow> nat \<Rightarrow> key list" where
  "shifts_for_time sch vars e d s =
     [(e, d, l, s). l \<leftarrow> [0..<num_locations sch], (e, d, l, s) \<in> set vars]"

definition constraint3 :: "scheduler \<Rightarrow> key list \<Rightarrow> constraint list" where
  "constraint3 sch vars =
     [AddLe (shifts_for_time sch vars e d s) 1.
        e \<leftarrow> [0..<num_employees sch],
        d \<leftarrow> [0..<num_days sch],
        s \<leftarrow> [0..<num_shifts_per_day sch],
        shifts_for_time sch vars e d s \<noteq> []]"

text \<open>One of the two blocks of constraint 4, for the shift pair \<open>(s1, s2)\<close>: the guard
  looks the pair up at location index 0.\<close>

definition consecutive_block :: "scheduler \<Rightarrow> key list \<Rightarrow> nat \<Rightarrow> nat \<Rightarrow> nat \<Rightarrow> nat \<Rightarrow> constraint list" where
  "consecutive_block sch vars e d s1 s2 =
     (if (e, d, 0, s1) \<in> set vars \<and> (e, d, 0, s2) \<in> set vars
      then [AddLe [(e, d, l1, s1), (e, d, l2, s2)] 1.
              l1 \<leftarrow> [0..<num_locations sch],
              l2 \<leftarrow> [0..<num_locations sch],
              (e, d, l1, s1) \<in> set vars \<and> (e, d, l2, s2) \<in> set vars]
      else [])"

definition constraint4 :: "scheduler \<Rightarrow> key list \<Rightarrow> constraint list" where
  "constraint4 sch vars =
     [c. e \<leftarrow> [0..<num_employees sch],
         d \<leftarrow> [0..<num_days sch],
         c \<leftarrow> consecutive_block sch vars e d 0 1 @ consecutive_block sch vars e d 1 2]"

definition week_days :: "scheduler \<Rightarrow> nat \<Rightarrow> nat list" where
  "week_days sch week = [week * 7 ..< min ((week + 1) * 7) (num_days sch)]"

definition total_shifts :: "scheduler \<Rightarrow> key list \<Rightarrow> nat \<Rightarrow> nat \<Rightarrow> key list" where
  "total_shifts sch vars e week =
     [(e, d, l, s).
        d \<leftarrow> week_days sch week,
        l \<leftarrow> [0..<num_locations sch],
        s \<leftarrow> [0..<num_shifts_per_day sch],
        (e, d, l, s) \<in> set vars]"

definition constraint5 :: "scheduler \<Rightarrow> key list \<Rightarrow> constraint list" where
  "constraint5 sch vars =
     [c. e \<leftarrow> [0..<num_employees sch],
         week \<leftarrow> [0..<2],
         c \<leftarrow> (if total_shifts sch vars e week \<noteq> []
               then [AddGe (total_shifts sch vars e week) (min_shifts_per_employee_per_week sch),
                     AddLe (total_shifts sch vars e week) (max_shifts_per_employee_per_week sch)]
               else [])]"

definition employee_total :: "scheduler \<Rightarrow> key list \<Rightarrow> nat \<Rightarrow> key list" where
  "employee_total sch vars e =
     [(e, d, l, s).
        d \<leftarrow> [0..<num_days sch],
        l \<leftarrow> [0..<num_locations sch],
        s \<leftarrow> [0..<num_shifts_per_day sch],
        (e, d, l, s) \<in> set vars]"

definition employee_total_shifts :: "scheduler \<Rightarrow> key list \<Rightarrow> key list list" where
  "employee_total_shifts sch vars =
     [employee_total sch vars e. e \<leftarrow> [0..<num_employees sch], employee_total sch vars e \<noteq> []]"

text \<open>The model handed to the solver: the variables, the constraints in the order they are
  added, and the objective (the upper bound of \<^verbatim>\<open>min_shifts\<close> and the sums whose minimum
  it equals) when there is one.\<close>

definition build_model :: "scheduler \<Rightarrow> cp_model" where
  "build_model sch =
     (let vars = shift_vars sch in
      \<lparr> variables = vars,
        constraints = constraint1 sch vars @ constraint2 sch vars @ constraint3 sch vars
                      @ constraint4 sch vars @ constraint5 sch vars,
        objective = (if employee_total_shifts sch vars \<noteq> []
                     then Some (num_days sch * num_shifts_per_day sch * num_locations sch,
                                employee_total_shifts sch vars)
                     else None) \<rparr>)"

section \<open>The solver\<close>

text \<open>
  CP-SAT is an external library: it is a parameter \<open>solve\<close> that maps a model to a verdict
  and a valuation of the variables. What the code relies on is its contract: with the
  verdict \<open>OPTIMAL\<close> or \<open>FEASIBLE\<close>, every boolean variable has the value 0 or 1, every
  added constraint holds and \<^verbatim>\<open>min_shifts\<close> lies within its bounds.
\<close>

datatype cp_status = UNKNOWN | MODEL_INVALID | FEASIBLE | INFEASIBLE | OPTIMAL

type_synonym valuation = "key \<Rightarrow> int"

definition sum_vars :: "valuation \<Rightarrow> key list \<Rightarrow> int" where
  "sum_vars val ks = sum_list (map val ks)"

fun holds :: "valuation \<Rightarrow> constraint \<Rightarrow> bool" where
  "holds val (AddGe ks n) = (sum_vars val ks \<ge> n)"
| "holds val (AddLe ks n) = (sum_vars val ks \<le> n)"

definition objective_ok :: "valuation \<Rightarrow> (nat \<times> key list list) option \<Rightarrow> bool" where
  "objective_ok val obj =
     (case obj of
        None \<Rightarrow> True
      | Some (ub, terms) \<Rightarrow>
          0 \<le> Min (set (map (sum_vars val) terms))
          \<and> Min (set (map (sum_vars val) terms)) \<le> int ub)"

definition feasible :: "cp_model \<Rightarrow> valuation \<Rightarrow> bool" where
  "feasible m val =
     (list_all (\<lambda>k. val k = 0 \<or> val k = 1) (variables m)
      \<and> list_all (holds val) (constraints m)
      \<and> objective_ok val (objective m))"

definition solver_contract :: "cp_model \<Rightarrow> cp_status \<times> valuation \<Rightarrow> bool" where
  "solver_contract m r = ((fst r = OPTIMAL \<or> fst r = FEASIBLE) \<longrightarrow> feasible m (snd r))"

section \<open>Schedule extraction\<close>

record assignment =
  employee_id :: ident
  employee_name :: string
  date :: int
  location_id :: ident
  location_name :: string
  shift_id :: ident
  shift_name :: string
  start_time :: string
  end_time :: string

definition make_assignment :: "scheduler \<Rightarrow> key \<Rightarrow> assignment" where
  "make_assignment sch k =
     (case k of (e, d, l, s) \<Rightarrow>
      \<lparr> employee_id = e_id (employees sch ! e),
        employee_name = e_name (employees sch ! e),
        date = dates sch ! d,
        location_id = l_id (locations sch ! l),
        location_name = l_name (locations sch ! l),
        shift_id = s_id (shifts sch ! s),
        shift_name = s_name (shifts sch ! s),
        start_time = s_start_time (shifts sch ! s),
        end_time = s_end_time (shifts sch ! s) \<rparr>)"

definition extract_schedule :: "scheduler \<Rightarrow> key list \<Rightarrow> valuation \<Rightarrow> assignment list" where
  "extract_schedule sch vars val =
     [make_assignment sch (e, d, l, s).
        e \<leftarrow> [0..<num_employees sch],
        d \<leftarrow> [0..<num_days sch],
        l \<leftarrow> [0..<num_locations sch],
        s \<leftarrow> [0..<num_shifts_per_day sch],
        (e, d, l, s) \<in> set vars \<and> val (e, d, l, s) = 1]"

text \<open>The keys for which \<^verbatim>\<open>_extract_schedule\<close> emits a record, in the order of emission.\<close>

definition extracted_keys :: "scheduler \<Rightarrow> key list \<Rightarrow> valuation \<Rightarrow> key list" where
  "extracted_keys sch vars val =
     [(e, d, l, s).
        e \<leftarrow> [0..<num_employees sch],
        d \<leftarrow> [0..<num_days sch],
        l \<leftarrow> [0..<num_locations sch],
        s \<leftarrow> [0..<num_shifts_per_day sch],
        (e, d, l, s) \<in> set vars \<and> val (e, d, l, s) = 1]"

definition key_less :: "key \<Rightarrow> key \<Rightarrow> bool" where
  "key_less a b =
     (case a of (e, d, l, s) \<Rightarrow> case b of (e', d', l', s') \<Rightarrow>
        e < e' \<or> (e = e' \<and> (d < d' \<or> (d = d' \<and> (l < l' \<or> (l = l' \<and> s < s'))))))"

section \<open>Statistics\<close>

text \<open>
  A Python dictionary is an association list in insertion order; storing under a key
  replaces the value in place or appends the pair (\<open>AList.update\<close>).
\<close>

definition dict_get :: "('k \<times> 'v) list \<Rightarrow> 'k \<Rightarrow> 'v \<Rightarrow> 'v" where
  "dict_get d k dflt = (case map_of d k of None \<Rightarrow> dflt | Some v \<Rightarrow> v)"

text \<open>\<^verbatim>\<open>d[k] = d.get(k, 0) + 1\<close>\<close>

definition count_into :: "'k \<Rightarrow> ('k \<times> nat) list \<Rightarrow> ('k \<times> nat) list" where
  "count_into k d = AList.update k (dict_get d k 0 + 1) d"

text \<open>\<^verbatim>\<open>if k not in d: d[k] = v\<close>\<close>

definition setdefault :: "'k \<Rightarrow> 'v \<Rightarrow> ('k \<times> 'v) list \<Rightarrow> ('k \<times> 'v) list" where
  "setdefault k v d = (if k \<in> fst ` set d then d else AList.update k v d)"

type_synonym employee_dicts =
  "(ident \<times> nat) list \<times> (ident \<times> ident set) list \<times> (ident \<times> (ident \<times> nat) list) list"

text \<open>The body of the first loop of \<^verbatim>\<open>_calculate_statistics\<close>, on the three dictionaries
  \<^verbatim>\<open>employee_shifts\<close>, \<^verbatim>\<open>employee_locations\<close> and \<^verbatim>\<open>employee_shift_types\<close>.\<close>

definition employee_loop_body :: "assignment \<Rightarrow> employee_dicts \<Rightarrow> employee_dicts" where
  "employee_loop_body a st =
     (case st of (employee_shifts, employee_locations, employee_shift_types) \<Rightarrow>
        let emp_id = employee_id a;
            loc_id = location_id a;
            sh_id = shift_id a;
            employee_shifts' = count_into emp_id employee_shifts;
            employee_locations1 = setdefault emp_id {} employee_locations;
            employee_locations' =
              AList.update emp_id (insert loc_id (dict_get employee_locations1 emp_id {}))
                employee_locations1;
            employee_shift_types1 = setdefault emp_id [] employee_shift_types;
            employee_shift_types' =
              AList.update emp_id (count_into sh_id (dict_get employee_shift_types1 emp_id []))
                employee_shift_types1
        in (employee_shifts', employee_locations', employee_shift_types'))"

definition employee_loop :: "assignment list \<Rightarrow> employee_dicts" where
  "employee_loop schedule = fold employee_loop_body schedule ([], [], [])"

definition employee_shifts :: "assignment list \<Rightarrow> (ident \<times> nat) list" where
  "employee_shifts schedule = fst (employee_loop schedule)"

definition employee_locations :: "assignment list \<Rightarrow> (ident \<times> ident set) list" where
  "employee_locations schedule = fst (snd (employee_loop schedule))"

definition employee_shift_types :: "assignment list \<Rightarrow> (ident \<times> (ident \<times> nat) list) list" where
  "employee_shift_types schedule = snd (snd (employee_loop schedule))"

definition location_shifts :: "assignment list \<Rightarrow> (ident \<times> nat) list" where
  "location_shifts schedule = fold (\<lambda>a. count_into (location_id a)) schedule []"

definition day_shifts :: "assignment list \<Rightarrow> (int \<times> nat) list" where
  "day_shifts schedule = fold (\<lambda>a. count_into (date a)) schedule []"

definition shift_type_counts :: "assignment list \<Rightarrow> (ident \<times> nat) list" where
  "shift_type_counts schedule = fold (\<lambda>a. count_into (shift_id a)) schedule []"

subsection \<open>Load balancing\<close>

definition shift_values :: "assignment list \<Rightarrow> nat list" where
  "shift_values schedule = map snd (employee_shifts schedule)"

definition avg_shifts :: "assignment list \<Rightarrow> real" where
  "avg_shifts schedule =
     (if shift_values schedule \<noteq> []
      then real (sum_list (shift_values schedule)) / real (length (shift_values schedule))
      else 0)"

text \<open>\<^verbatim>\<open>variance\<close>, \<^verbatim>\<open>std_dev\<close> and \<^verbatim>\<open>coefficient_of_variation\<close> are bound only in the
  branch where \<^verbatim>\<open>shift_values\<close> is not empty; every use outside it is guarded.\<close>

definition variance :: "assignment list \<Rightarrow> real" where
  "variance schedule =
     sum_list (map (\<lambda>x. (real x - avg_shifts schedule) ^ 2) (shift_values schedule))
       / real (length (shift_values schedule))"

definition std_dev :: "assignment list \<Rightarrow> real" where
  "std_dev schedule = sqrt (variance schedule)"

definition coefficient_of_variation :: "assignment list \<Rightarrow> real" where
  "coefficient_of_variation schedule =
     (if avg_shifts schedule > 0 then std_dev schedule / avg_shifts schedule else 0)"

definition load_balance_score :: "assignment list \<Rightarrow> real" where
  "load_balance_score schedule =
     (if shift_values schedule \<noteq> []
      then max 0 (min 100 (100 * (1 - coefficient_of_variation schedule)))
      else 0)"

subsection \<open>Location diversity\<close>

definition location_diversity :: "assignment list \<Rightarrow> (ident \<times> nat) list" where
  "location_diversity schedule = map (\<lambda>(emp_id, locs). (emp_id, card locs)) (employee_locations schedule)"

definition employees_multi_location :: "assignment list \<Rightarrow> nat" where
  "employees_multi_location schedule =
     length (filter (\<lambda>count. count > 1) (map snd (location_diversity schedule)))"

definition location_diversity_rate :: "assignment list \<Rightarrow> real" where
  "location_diversity_rate schedule =
     (if location_diversity schedule \<noteq> []
      then real (employees_multi_location schedule) / real (length (location_diversity schedule)) * 100
      else 0)"

definition avg_locations_per_employee :: "assignment list \<Rightarrow> real" where
  "avg_locations_per_employee schedule =
     (if location_diversity schedule \<noteq> []
      then real (sum_list (map snd (location_diversity schedule)))
             / real (length (location_diversity schedule))
      else 0)"

subsection \<open>Shift type diversity\<close>

definition entropy :: "(ident \<times> nat) list \<Rightarrow> real" where
  "entropy shift_dist =
     (let total = sum_list (map snd shift_dist)
      in - sum_list (map (\<lambda>count. if count > 0
                                   then (real count / real total) * log 2 (real count / real total)
                                   else 0)
                         (map snd shift_dist)))"

definition max_entropy :: real where
  "max_entropy = log 2 3"

definition diversity_score :: "(ident \<times> nat) list \<Rightarrow> real" where
  "diversity_score shift_dist =
     (if max_entropy > 0 then (entropy shift_dist / max_entropy) * 100 else 0)"

definition shift_diversity_scores :: "assignment list \<Rightarrow> real list" where
  "shift_diversity_scores schedule =
     [diversity_score shift_dist.
        (emp_id, shift_dist) \<leftarrow> employee_shift_types schedule,
        sum_list (map snd shift_dist) > 0]"

definition avg_shift_diversity :: "assignment list \<Rightarrow> real" where
  "avg_shift_diversity schedule =
     (if shift_diversity_scores schedule \<noteq> []
      then sum_list (shift_diversity_scores schedule) / real (length (shift_diversity_scores schedule))
      else 0)"

subsection \<open>The statistics record\<close>

text \<open>
  \<^verbatim>\<open>round(x, ndigits)\<close> is a builtin that works on the double the code has computed. The
  double and the real that models it differ by the rounding errors of the arithmetic, far
  below the digits that are kept, and at a tie these errors decide the last digit. So
  \<^verbatim>\<open>round\<close> is a parameter \<open>rnd\<close>, known by its contract: the result, read as the
  decimal number it is printed as, is a multiple of \<open>10 ^ - ndigits\<close> and no multiple is
  nearer to \<open>x\<close>; at a tie it is either neighbour.
\<close>

definition round_contract :: "(real \<Rightarrow> nat \<Rightarrow> real) \<Rightarrow> bool" where
  "round_contract rnd \<longleftrightarrow>
     (\<forall>x n. (\<exists>k::int. rnd x n = of_int k / 10 ^ n) \<and> \<bar>rnd x n - x\<bar> \<le> 1 / (2 * 10 ^ n))"

text \<open>The dictionary comprehension \<^verbatim>\<open>{str(k): v for k, v in d.items()}\<close>: the entries are
  stored one after the other under the rendered key, so an entry replaces an earlier one
  with the same rendering.\<close>

definition rekey :: "('k \<Rightarrow> 's) \<Rightarrow> ('k \<times> 'v) list \<Rightarrow> ('s \<times> 'v) list" where
  "rekey f d = fold (\<lambda>(k, v). AList.update (f k) v) d []"

record fairness_summary =
  min_shifts :: nat
  max_shifts :: nat
  fairness_variance :: real
  fairness_score :: real

record load_balancing_summary =
  load_balancing_score :: real
  load_balancing_coefficient_of_variation :: real

record location_distribution_summary =
  multi_location_employees :: nat
  diversity_rate :: real
  avg_per_employee :: real

record optimization_summary =
  fairness :: fairness_summary
  load_balancing :: load_balancing_summary
  location_distribution :: location_distribution_summary

record statistics =
  total_assignments :: nat
  shifts_per_employee :: "(string \<times> nat) list"
  shifts_per_location :: "(string \<times> nat) list"
  shifts_per_day :: "(int \<times> nat) list"
  shifts_per_type :: "(string \<times> nat) list"
  min_shifts_per_employee :: nat
  max_shifts_per_employee :: nat
  avg_shifts_per_employee :: real
  stat_load_balance_score :: real
  stat_location_diversity :: "(string \<times> nat) list"
  stat_employees_multi_location :: nat
  stat_location_diversity_rate :: real
  stat_avg_locations_per_employee :: real
  stat_avg_shift_diversity :: real
  conflicts_detected :: nat
  stat_optimization_summary :: optimization_summary

definition calculate_statistics :: "(real \<Rightarrow> nat \<Rightarrow> real) \<Rightarrow> assignment list \<Rightarrow> statistics" where
  "calculate_statistics rnd schedule =
     \<lparr> total_assignments = length schedule,
       shifts_per_employee = rekey str (employee_shifts schedule),
       shifts_per_location = rekey str (location_shifts schedule),
       shifts_per_day = day_shifts schedule,
       shifts_per_type = rekey str (shift_type_counts schedule),
       min_shifts_per_employee =
         (if employee_shifts schedule \<noteq> [] then Min (set (map snd (employee_shifts schedule))) else 0),
       max_shifts_per_employee =
         (if employee_shifts schedule \<noteq> [] then Max (set (map snd (employee_shifts schedule))) else 0),
       avg_shifts_per_employee = avg_shifts schedule,
       stat_load_balance_score = rnd (load_balance_score schedule) 2,
       stat_location_diversity = rekey str (location_diversity schedule),
       stat_employees_multi_location = employees_multi_location schedule,
       stat_location_diversity_rate = rnd (location_diversity_rate schedule) 2,
       stat_avg_locations_per_employee = rnd (avg_locations_per_employee schedule) 2,
       stat_avg_shift_diversity = rnd (avg_shift_diversity schedule) 2,
       conflicts_detected = 0,
       stat_optimization_summary =
         \<lparr> fairness =
             \<lparr> min_shifts =
                 (if employee_shifts schedule \<noteq> []
                  then Min (set (map snd (employee_shifts schedule))) else 0),
               max_shifts =
                 (if employee_shifts schedule \<noteq> []
                  then Max (set (map snd (employee_shifts schedule))) else 0),
               fairness_variance =
                 (if shift_values schedule \<noteq> [] then rnd (variance schedule) 2 else 0),
               fairness_score = rnd (load_balance_score schedule) 2 \<rparr>,
           load_balancing =
             \<lparr> load_balancing_score = rnd (load_balance_score schedule) 2,
               load_balancing_coefficient_of_variation =
                 (if shift_values schedule \<noteq> []
                  then rnd (coefficient_of_variation schedule) 4 else 0) \<rparr>,
           location_distribution =
             \<lparr> multi_location_employees = employees_multi_location schedule,
               diversity_rate = rnd (location_diversity_rate schedule) 2,
               avg_per_employee = rnd (avg_locations_per_employee schedule) 2 \<rparr> \<rparr> \<rparr>"

section \<open>Generating a schedule\<close>

text \<open>
  Two exceptions leave \<^verbatim>\<open>generate_schedule\<close> on the inputs of the model. The one it
  raises itself is \<^verbatim>\<open>Exception(f"Solver failed with status: {status}")\<close>. The other comes
  from the solver library while the model is built: the comparison handed to
  \<^verbatim>\<open>model.Add\<close> is refused when its bound does not fit a signed 64-bit integer, so the first
  such constraint, in the order in which the constraints are added, ends the run before
  the solver is called.
\<close>

datatype error = SolverFailed cp_status | BoundOutOfRange int

definition int64 :: "int \<Rightarrow> bool" where
  "int64 n \<longleftrightarrow> - (2 ^ 63) \<le> n \<and> n < 2 ^ 63"

fun bound :: "constraint \<Rightarrow> int" where
  "bound (AddGe ks n) = n"
| "bound (AddLe ks n) = n"

record result =
  status :: string
  solver_status :: string
  generated_at :: string
  res_dates :: "int list"
  res_employees :: "employee list"
  res_locations :: "location list"
  res_shifts :: "shift list"
  schedule :: "assignment list"
  res_statistics :: statistics

definition generate_schedule ::
  "scheduler \<Rightarrow> string \<Rightarrow> (cp_model \<Rightarrow> cp_status \<times> valuation) \<Rightarrow> (real \<Rightarrow> nat \<Rightarrow> real)
     \<Rightarrow> error + result" where
  "generate_schedule sch now solve rnd =
     (let model = build_model sch;
          vars = variables model
      in case find (\<lambda>c. \<not> int64 (bound c)) (constraints model) of
           Some c \<Rightarrow> Inl (BoundOutOfRange (bound c))
         | None \<Rightarrow>
             (let (st, val) = solve model
              in if st = OPTIMAL \<or> st = FEASIBLE
                 then let sched = extract_schedule sch vars val;
                          stats = calculate_statistics rnd sched
                      in Inr \<lparr> status = (if st = OPTIMAL then ''SUCCESS'' else ''FEASIBLE''),
                               solver_status = (if st = OPTIMAL then ''OPTIMAL'' else ''FEASIBLE''),
                               generated_at = now,
                               res_dates = dates sch,
                               res_employees = employees sch,
                               res_locations = locations sch,
                               res_shifts = shifts sch,
                               schedule = sched,
                               res_statistics = stats \<rparr>
                 else Inl (SolverFailed st)))"

section \<open>Advisor overrides\<close>

text \<open>
  \<^verbatim>\<open>main\<close> (and, with the same lines, the API handler) builds the scheduler and then looks
  at the advisor's \<^verbatim>\<open>suggested_constraints\<close>. The advisor's answer is \<open>None\<close> when the
  pre-analysis was skipped; the bundle is a dictionary from names to integers.
\<close>

record pre_analysis =
  suggested_constraints :: "(string \<times> int) list option"

definition apply_suggested_constraints :: "scheduler \<Rightarrow> pre_analysis option \<Rightarrow> scheduler" where
  "apply_suggested_constraints sch ai_pre_analysis =
     (case ai_pre_analysis of
        None \<Rightarrow> sch
      | Some analysis \<Rightarrow>
          (case suggested_constraints analysis of
             None \<Rightarrow> sch
           | Some cs \<Rightarrow>
               if cs \<noteq> []
               then (if ''min_employees_per_shift'' \<in> fst ` set cs
                     then sch\<lparr>min_employees_per_shift := dict_get cs ''min_employees_per_shift'' 0\<rparr>
                     else sch)
               else sch))"

definition main_generate ::
  "employee list \<Rightarrow> location list \<Rightarrow> shift list \<Rightarrow> int \<Rightarrow> pre_analysis option \<Rightarrow> string
     \<Rightarrow> (cp_model \<Rightarrow> cp_status \<times> valuation) \<Rightarrow> (real \<Rightarrow> nat \<Rightarrow> real) \<Rightarrow> error + result" where
  "main_generate emps locs shs start_date ai_pre_analysis now solve rnd =
     generate_schedule (apply_suggested_constraints (init emps locs shs start_date) ai_pre_analysis)
       now solve rnd"

section \<open>Measurements on a result\<close>

text \<open>
  The properties below speak about the keys for which a record was emitted: how many
  shifts employee \<open>e\<close> works in a week, and whether some employee works two shifts with
  adjacent indices on one day.
\<close>

definition weekly_total :: "key list \<Rightarrow> nat \<Rightarrow> nat \<Rightarrow> nat" where
  "weekly_total ks e week =
     length (filter (\<lambda>k. case k of (e', d, l, s) \<Rightarrow> e' = e \<and> week * 7 \<le> d \<and> d < (week + 1) * 7) ks)"

definition adjacent_shifts :: "key list \<Rightarrow> key \<Rightarrow> key \<Rightarrow> bool" where
  "adjacent_shifts ks a b =
     (a \<in> set ks \<and> b \<in> set ks \<and>
      (case a of (e, d, l, s) \<Rightarrow> case b of (e', d', l', s') \<Rightarrow> e' = e \<and> d' = d \<and> s' = s + 1))"

text \<open>Whether the integers that become bounds of constraints fit a signed 64-bit integer:
  the minimum per shift, the weekly bounds and the capacity of every location.\<close>

definition bounds_int64 :: "scheduler \<Rightarrow> bool" where
  "bounds_int64 sch \<longleftrightarrow>
     int64 (min_employees_per_shift sch)
     \<and> int64 (min_shifts_per_employee_per_week sch)
     \<and> int64 (max_shifts_per_employee_per_week sch)
     \<and> (\<forall>l<num_locations sch. int64 (get_or (capacity (locations sch ! l)) 20))"

text \<open>The per-employee count \<open>cnt_e\<close> of the specification, and the employees that occur
  in a schedule.\<close>

definition cnt_e :: "assignment list \<Rightarrow> ident \<Rightarrow> nat" where
  "cnt_e sched emp = length (filter (\<lambda>a. employee_id a = emp) sched)"

definition scheduled_employees :: "assignment list \<Rightarrow> ident set" where
  "scheduled_employees sched = employee_id ` set sched"

section \<open>The statistics as the specification words them\<close>

text \<open>
  Spelled out over the employees that occur in the schedule: the mean and the variance of
  the counts \<open>cnt_e\<close>, the coefficient of variation (0 when the mean is 0), and the Shannon
  entropy of an employee's shift types, \<open>p\<close> being the share of the employee's assignments
  that have the shift type. \<open>spec_avg_shift_diversity S\<close> normalises by \<open>log 2 S\<close>.
\<close>

definition spec_avg :: "assignment list \<Rightarrow> real" where
  "spec_avg sched =
     (\<Sum>emp\<in>scheduled_employees sched. real (cnt_e sched emp))
       / real (card (scheduled_employees sched))"

definition spec_variance :: "assignment list \<Rightarrow> real" where
  "spec_variance sched =
     (\<Sum>emp\<in>scheduled_employees sched. (real (cnt_e sched emp) - spec_avg sched) ^ 2)
       / real (card (scheduled_employees sched))"

definition spec_cv :: "assignment list \<Rightarrow> real" where
  "spec_cv sched =
     (if spec_avg sched = 0 then 0 else sqrt (spec_variance sched) / spec_avg sched)"

definition shift_cnt :: "assignment list \<Rightarrow> ident \<Rightarrow> ident \<Rightarrow> nat" where
  "shift_cnt sched emp sh =
     length (filter (\<lambda>a. employee_id a = emp \<and> shift_id a = sh) sched)"

definition shift_share :: "assignment list \<Rightarrow> ident \<Rightarrow> ident \<Rightarrow> real" where
  "shift_share sched emp sh = real (shift_cnt sched emp sh) / real (cnt_e sched emp)"

definition spec_entropy :: "assignment list \<Rightarrow> ident \<Rightarrow> real" where
  "spec_entropy sched emp =
     - (\<Sum>sh\<in>shift_id ` set sched.
          if shift_share sched emp sh = 0 then 0
          else shift_share sched emp sh * log 2 (shift_share sched emp sh))"

definition spec_avg_shift_diversity :: "nat \<Rightarrow> assignment list \<Rightarrow> real" where
  "spec_avg_shift_diversity S sched =
     (if sched = [] then 0
      else (\<Sum>emp\<in>scheduled_employees sched. 100 * spec_entropy sched emp / log 2 (real S))
             / real (card (scheduled_employees sched)))"

text \<open>The shift types an employee works.\<close>

definition shift_types_of :: "assignment list \<Rightarrow> ident \<Rightarrow> ident set" where
  "shift_types_of sched emp = shift_id ` set (filter (\<lambda>a. employee_id a = emp) sched)"

section \<open>Example inputs\<close>

text \<open>One function that meets the contract of \<^verbatim>\<open>round\<close>: to the nearest multiple, a tie
  to the even one.\<close>

definition round_half_even :: "real \<Rightarrow> nat \<Rightarrow> real" where
  "round_half_even x ndigits =
     (let y = x * 10 ^ ndigits;
          f = \<lfloor>y\<rfloor>;
          r = y - of_int f;
          n = (if r < 1 / 2 then f else if r > 1 / 2 then f + 1 else if even f then f else f + 1)
      in of_int n / 10 ^ ndigits)"

definition emp_with :: "string \<Rightarrow> string list \<Rightarrow> employee" where
  "emp_with n sk = \<lparr> e_id = IdStr n, e_name = n, skills = Some sk \<rparr>"

definition loc_with :: "string \<Rightarrow> string list \<Rightarrow> location" where
  "loc_with n req = \<lparr> l_id = IdStr n, l_name = n, required_skills = Some req, capacity = Some 20 \<rparr>"

definition two_shifts :: "shift list" where
  "two_shifts =
     [\<lparr> s_id = IdStr ''morning'', s_name = ''Morning'', s_start_time = ''06:00'',
        s_end_time = ''14:00'' \<rparr>,
      \<lparr> s_id = IdStr ''afternoon'', s_name = ''Afternoon'', s_start_time = ''14:00'',
        s_end_time = ''22:00'' \<rparr>]"

text \<open>
  Four employees with skill B; the first location requires skill A, the second skill B;
  two shifts a day. Employees 0 and 1 work every morning and employees 2 and 3 every
  afternoon at the second location, and employee 0 also works the afternoon of day 0.
\<close>

definition sch_x :: scheduler where
  "sch_x = init [emp_with ''E1'' [''B''], emp_with ''E2'' [''B''], emp_with ''E3'' [''B''],
                 emp_with ''E4'' [''B'']]
                [loc_with ''L1'' [''A''], loc_with ''L2'' [''B'']] two_shifts 0"

definition val_x :: valuation where
  "val_x k =
     (case k of (e, d, l, s) \<Rightarrow>
        if l = 1 \<and> (s = e div 2 \<or> (e = 0 \<and> d = 0 \<and> s = 1)) then 1 else 0)"

definition solve_x :: "cp_model \<Rightarrow> cp_status \<times> valuation" where
  "solve_x m = (FEASIBLE, val_x)"

text \<open>
  Five employees, four with skill B and one with no skill; one location, which requires
  skill B; two shifts a day. Employees 0 and 1 work every morning and employees 2 and 3
  every afternoon.
\<close>

definition sch_y :: scheduler where
  "sch_y = init [emp_with ''E1'' [''B''], emp_with ''E2'' [''B''], emp_with ''E3'' [''B''],
                 emp_with ''E4'' [''B''], emp_with ''E5'' []]
                [loc_with ''L1'' [''B'']] two_shifts 0"

definition val_y :: valuation where
  "val_y k = (case k of (e, d, l, s) \<Rightarrow> if s = e div 2 then 1 else 0)"

definition solve_y :: "cp_model \<Rightarrow> cp_status \<times> valuation" where
  "solve_y m = (FEASIBLE, val_y)"

text \<open>One employee, one location without required skills next to one with, one shift.\<close>

definition sch_open :: scheduler where
  "sch_open = init [emp_with ''E1'' [''A'']]
                   [loc_with ''L1'' [''A''], loc_with ''L2'' []]
                   [\<lparr> s_id = IdStr ''day'', s_name = ''Day'', s_start_time = ''08:00'',
                      s_end_time = ''16:00'' \<rparr>] 0"

definition val_open :: valuation where
  "val_open k = (case k of (e, d, l, s) \<Rightarrow> if d < 5 \<or> (7 \<le> d \<and> d < 12) then 1 else 0)"

text \<open>No employee at all; the solver's answer for the model without variables.\<close>

definition sch_nobody :: scheduler where
  "sch_nobody = init [] [loc_with ''L1'' [''A'']] two_shifts 0"

definition solve_trivial :: "cp_model \<Rightarrow> cp_status \<times> valuation" where
  "solve_trivial m = (OPTIMAL, \<lambda>k. 0)"

text \<open>One employee and one location that fit, the capacity of the location being \<open>2 ^ 63\<close>.\<close>

definition sch_huge :: scheduler where
  "sch_huge = init [emp_with ''E1'' [''B'']]
                   [(loc_with ''L1'' [''B'']) \<lparr> capacity := Some (2 ^ 63) \<rparr>] two_shifts 0"

text \<open>An advisor bundle that sets all three overrides of the specification.\<close>

definition advice_all :: "pre_analysis option" where
  "advice_all =
     Some \<lparr> suggested_constraints =
              Some [(''min_employees_per_shift'', 3),
                    (''max_shifts_per_week'', 7),
                    (''min_shifts_per_week'', 3)] \<rparr>"

text \<open>Hand-written schedules: a record for an employee, a day and a shift type.\<close>

definition assign :: "string \<Rightarrow> int \<Rightarrow> string \<Rightarrow> assignment" where
  "assign emp day sh =
     \<lparr> employee_id = IdStr emp, employee_name = emp, date = day,
       location_id = IdStr ''L1'', location_name = ''L1'',
       shift_id = IdStr sh, shift_name = sh, start_time = ''00:00'', end_time = ''08:00'' \<rparr>"

definition sched_even :: "assignment list" where
  "sched_even = [assign ''E1'' 0 ''morning'', assign ''E2'' 0 ''morning'',
                 assign ''E1'' 1 ''evening'', assign ''E2'' 1 ''evening'']"

definition sched_uneven :: "assignment list" where
  "sched_uneven = [assign ''E1'' 0 ''morning'', assign ''E2'' 0 ''morning'',
                   assign ''E1'' 1 ''morning'']"

definition sched_four :: "assignment list" where
  "sched_four = [assign ''E1'' 0 ''morning'', assign ''E1'' 0 ''evening'',
                 assign ''E1'' 1 ''afternoon'', assign ''E1'' 1 ''night'']"

text \<open>Two employees whose identifiers are the integer 1 and the string \<^verbatim>\<open>'1'\<close>.\<close>

definition sched_mixed :: "assignment list" where
  "sched_mixed = [(assign ''one'' 0 ''morning'') \<lparr> employee_id := IdInt 1 \<rparr>,
                  (assign ''uno'' 0 ''morning'') \<lparr> employee_id := IdStr ''1'' \<rparr>]"

section \<open>Extraction: order and support\<close>

lemma sorted_wrt_concat_upt:
  assumes "\<And>i. i < n \<Longrightarrow> sorted_wrt R (f i)"
    and "\<And>i j x y. i < j \<Longrightarrow> j < n \<Longrightarrow> x \<in> set (f i) \<Longrightarrow> y \<in> set (f j) \<Longrightarrow> R x y"
  shows "sorted_wrt R (concat (map f [m..<n]))"
  using assms
proof (induction n)
  case 0
  then show ?case by simp
next
  case (Suc n)
  show ?case
  proof (cases "m \<le> n")
    case False
    then show ?thesis by simp
  next
    case True
    have "sorted_wrt R (concat (map f [m..<n]))"
      using Suc by (metis less_Suc_eq)
    moreover have "sorted_wrt R (f n)" using Suc.prems(1) by simp
    moreover have "\<forall>x\<in>set (concat (map f [m..<n])). \<forall>y\<in>set (f n). R x y"
      using Suc.prems(2) by auto
    ultimately show ?thesis using True by (simp add: sorted_wrt_append)
  qed
qed

lemma key_less_irrefl: "\<not> key_less k k"
  by (auto simp: key_less_def)

lemma sorted_key_less_distinct:
  assumes "sorted_wrt key_less ks"
  shows "distinct ks"
  using assms key_less_irrefl
  by (metis distinct_conv_nth sorted_wrt_iff_nth_less nat_neq_iff)

lemma extracted_keys_mem:
  "k \<in> set (extracted_keys sch vars val) \<longleftrightarrow>
     (case k of (e, d, l, s) \<Rightarrow> e < num_employees sch \<and> d < num_days sch \<and> l < num_locations sch
        \<and> s < num_shifts_per_day sch \<and> k \<in> set vars \<and> val k = 1)"
  by (cases k) (auto simp: extracted_keys_def)

lemma shift_vars_mem:
  "k \<in> set (shift_vars sch) \<longleftrightarrow>
     (case k of (e, d, l, s) \<Rightarrow> e < num_employees sch \<and> d < num_days sch \<and> l < num_locations sch
        \<and> s < num_shifts_per_day sch
        \<and> employee_has_required_skills (employees sch ! e) (locations sch ! l))"
  by (cases k) (auto simp: shift_vars_def)

lemma extract_schedule_map:
  "extract_schedule sch vars val = map (make_assignment sch) (extracted_keys sch vars val)"
  unfolding extract_schedule_def extracted_keys_def
  by (simp add: map_concat comp_def if_distrib cong: if_cong)

lemma sorted_extracted_keys: "sorted_wrt key_less (extracted_keys sch vars val)"
  unfolding extracted_keys_def
  apply (rule sorted_wrt_concat_upt)
   apply (rule sorted_wrt_concat_upt)
    apply (rule sorted_wrt_concat_upt)
     apply (rule sorted_wrt_concat_upt)
      apply (auto simp: key_less_def split: if_splits)
  done

lemma distinct_extracted_keys: "distinct (extracted_keys sch vars val)"
  by (rule sorted_key_less_distinct) (rule sorted_extracted_keys)

lemma extracted_keys_support:
  "set (extracted_keys sch (shift_vars sch) val) = {k. k \<in> set (shift_vars sch) \<and> val k = 1}"
  by (auto simp: extracted_keys_mem shift_vars_mem)

lemma length_extract_schedule:
  "length (extract_schedule sch (shift_vars sch) val) = card {k. k \<in> set (shift_vars sch) \<and> val k = 1}"
  using distinct_card [OF distinct_extracted_keys, of sch "shift_vars sch" val]
  by (simp add: extract_schedule_map extracted_keys_support)

text \<open>
  C9. The schedule holds one record for each key of the variable dictionary whose value is
  1, and nothing else. Its records are those of the emitted keys, in the order of emission,
  and the record of the key \<open>(e, d, l, s)\<close> carries the identifier and the name of employee
  \<open>e\<close>, the date of day \<open>d\<close>, the identifier and the name of location \<open>l\<close>, and the
  identifier, the name and the times of shift \<open>s\<close>. The emitted keys are in strictly
  increasing lexicographic order on \<open>(e, d, l, s)\<close>, so none is emitted twice, and they are
  exactly the keys of the variable dictionary whose value is 1; the schedule has as many
  records as there are such keys. Every index of an emitted key lies within the range of
  its loop.
\<close>

theorem extract_schedule_lexicographic:
  "extract_schedule sch (shift_vars sch) val
     = map (\<lambda>(e, d, l, s).
              \<lparr> employee_id = e_id (employees sch ! e),
                employee_name = e_name (employees sch ! e),
                date = dates sch ! d,
                location_id = l_id (locations sch ! l),
                location_name = l_name (locations sch ! l),
                shift_id = s_id (shifts sch ! s),
                shift_name = s_name (shifts sch ! s),
                start_time = s_start_time (shifts sch ! s),
                end_time = s_end_time (shifts sch ! s) \<rparr>)
           (extracted_keys sch (shift_vars sch) val)
   \<and> length (extract_schedule sch (shift_vars sch) val)
       = card {k. k \<in> set (shift_vars sch) \<and> val k = 1}
   \<and> sorted_wrt key_less (extracted_keys sch (shift_vars sch) val)
   \<and> distinct (extracted_keys sch (shift_vars sch) val)
   \<and> set (extracted_keys sch (shift_vars sch) val) = {k. k \<in> set (shift_vars sch) \<and> val k = 1}
   \<and> list_all (\<lambda>(e, d, l, s). e < num_employees sch \<and> d < num_days sch
                                 \<and> l < num_locations sch \<and> s < num_shifts_per_day sch)
         (extracted_keys sch (shift_vars sch) val)"
proof -
  have "make_assignment sch
          = (\<lambda>(e, d, l, s).
              \<lparr> employee_id = e_id (employees sch ! e),
                employee_name = e_name (employees sch ! e),
                date = dates sch ! d,
                location_id = l_id (locations sch ! l),
                location_name = l_name (locations sch ! l),
                shift_id = s_id (shifts sch ! s),
                shift_name = s_name (shifts sch ! s),
                start_time = s_start_time (shifts sch ! s),
                end_time = s_end_time (shifts sch ! s) \<rparr>)"
    by (rule ext) (simp add: make_assignment_def)
  moreover have "list_all (\<lambda>(e, d, l, s). e < num_employees sch \<and> d < num_days sch
                                 \<and> l < num_locations sch \<and> s < num_shifts_per_day sch)
         (extracted_keys sch (shift_vars sch) val)"
    by (auto simp: list_all_iff extracted_keys_mem)
  ultimately show ?thesis
    using extract_schedule_map [of sch "shift_vars sch" val] length_extract_schedule [of sch val]
      sorted_extracted_keys [of sch "shift_vars sch" val]
      distinct_extracted_keys [of sch "shift_vars sch" val] extracted_keys_support [of sch val]
    by simp
qed

section \<open>Locations without required skills\<close>

text \<open>
  C8. A location whose set of required skills is empty (the key absent or the list empty)
  is compatible with no employee, so the variable dictionary has no key at its index and
  no key at its index is ever emitted; when the location identifiers are distinct, no
  record of any extracted schedule carries its identifier.
\<close>

theorem empty_required_skills_unreachable:
  assumes "set (get_or (required_skills (locations sch ! l)) []) = {}"
  shows "(\<forall>emp. \<not> employee_has_required_skills emp (locations sch ! l))
       \<and> (\<forall>e d s. (e, d, l, s) \<notin> set (shift_vars sch))
       \<and> (\<forall>val e d s. (e, d, l, s) \<notin> set (extracted_keys sch (shift_vars sch) val))
       \<and> (l < length (locations sch) \<and> num_locations sch = length (locations sch)
            \<and> distinct (map l_id (locations sch))
          \<longrightarrow> (\<forall>val. l_id (locations sch ! l)
                 \<notin> location_id ` set (extract_schedule sch (shift_vars sch) val)))"
proof -
  have incompatible: "\<not> employee_has_required_skills emp (locations sch ! l)" for emp
    using assms by (simp add: employee_has_required_skills_def)
  then have no_var: "(e, d, l, s) \<notin> set (shift_vars sch)" for e d s
    by (simp add: shift_vars_mem)
  then have no_key: "(e, d, l, s) \<notin> set (extracted_keys sch (shift_vars sch) val)" for val e d s
    by (simp add: extracted_keys_mem)
  have no_record: "l_id (locations sch ! l) \<notin> location_id ` set (extract_schedule sch (shift_vars sch) val)"
    if wf: "l < length (locations sch)" "num_locations sch = length (locations sch)"
       "distinct (map l_id (locations sch))" for val
  proof
    assume "l_id (locations sch ! l) \<in> location_id ` set (extract_schedule sch (shift_vars sch) val)"
    then obtain k where k: "k \<in> set (extracted_keys sch (shift_vars sch) val)"
      and eq: "l_id (locations sch ! l) = location_id (make_assignment sch k)"
      by (auto simp: extract_schedule_map)
    obtain e d l' s where k_def: "k = (e, d, l', s)" by (cases k) auto
    have "l' < length (locations sch)"
      using k wf(2) by (simp add: k_def extracted_keys_mem)
    moreover have "l_id (locations sch ! l) = l_id (locations sch ! l')"
      using eq by (simp add: k_def make_assignment_def)
    ultimately have "l' = l"
      using wf(1,3) by (auto simp: distinct_conv_nth)
    then show False using k no_key by (simp add: k_def)
  qed
  show ?thesis
    using incompatible no_var no_key no_record by blast
qed

lemma sch_open_fields:
  "num_employees sch_open = 1" "num_days sch_open = 14" "num_locations sch_open = 2"
  "num_shifts_per_day sch_open = 1"
  "locations sch_open = [loc_with ''L1'' [''A''], loc_with ''L2'' []]"
  by (simp_all add: sch_open_def init_def)

theorem empty_required_skills_unreachable_witness:
  "set (get_or (required_skills (locations sch_open ! 1)) []) = {}
   \<and> \<not> employee_has_required_skills (emp_with ''E1'' [''A'']) (locations sch_open ! 1)
   \<and> (0, 0, 1, 0) \<notin> set (shift_vars sch_open)
   \<and> (0, 0, 1, 0) \<notin> set (extracted_keys sch_open (shift_vars sch_open) val_open)
   \<and> IdStr ''L2'' \<notin> location_id ` set (extract_schedule sch_open (shift_vars sch_open) val_open)"
proof -
  have h: "set (get_or (required_skills (locations sch_open ! 1)) []) = {}"
    by (simp add: sch_open_fields loc_with_def get_or_def)
  have wf: "1 < length (locations sch_open) \<and> num_locations sch_open = length (locations sch_open)
            \<and> distinct (map l_id (locations sch_open))"
    by (simp add: sch_open_fields loc_with_def)
  have name: "l_id (locations sch_open ! 1) = IdStr ''L2''"
    by (simp add: sch_open_fields loc_with_def)
  show ?thesis
    using empty_required_skills_unreachable [OF h] h wf name by metis
qed

section \<open>What the constraints say\<close>

lemma holds_constraint1:
  "list_all (holds val) (constraint1 sch vars) \<longleftrightarrow>
     (\<forall>d<num_days sch. \<forall>l<num_locations sch. \<forall>s<num_shifts_per_day sch.
        employees_for_shift sch vars d l s \<noteq> [] \<longrightarrow>
        min_employees_per_shift sch \<le> sum_vars val (employees_for_shift sch vars d l s))"
  by (auto simp: constraint1_def list_all_iff)

lemma holds_constraint2:
  "list_all (holds val) (constraint2 sch vars) \<longleftrightarrow>
     (\<forall>d<num_days sch. \<forall>l<num_locations sch. \<forall>s<num_shifts_per_day sch.
        employees_for_shift sch vars d l s \<noteq> [] \<longrightarrow>
        sum_vars val (employees_for_shift sch vars d l s) \<le> get_or (capacity (locations sch ! l)) 20)"
  by (auto simp: constraint2_def list_all_iff)

lemma holds_constraint3:
  "list_all (holds val) (constraint3 sch vars) \<longleftrightarrow>
     (\<forall>e<num_employees sch. \<forall>d<num_days sch. \<forall>s<num_shifts_per_day sch.
        shifts_for_time sch vars e d s \<noteq> [] \<longrightarrow>
        sum_vars val (shifts_for_time sch vars e d s) \<le> 1)"
  by (auto simp: constraint3_def list_all_iff)

lemma holds_consecutive_block:
  "list_all (holds val) (consecutive_block sch vars e d s1 s2) \<longleftrightarrow>
     ((e, d, 0, s1) \<in> set vars \<and> (e, d, 0, s2) \<in> set vars \<longrightarrow>
      (\<forall>l1<num_locations sch. \<forall>l2<num_locations sch.
         (e, d, l1, s1) \<in> set vars \<and> (e, d, l2, s2) \<in> set vars \<longrightarrow>
         val (e, d, l1, s1) + val (e, d, l2, s2) \<le> 1))"
proof (cases "(e, d, 0, s1) \<in> set vars \<and> (e, d, 0, s2) \<in> set vars")
  case False
  then show ?thesis by (auto simp: consecutive_block_def)
next
  case True
  have "list_all (holds val) (consecutive_block sch vars e d s1 s2) \<longleftrightarrow>
        (\<forall>l1\<in>{0..<num_locations sch}. \<forall>l2\<in>{0..<num_locations sch}.
           (e, d, l1, s1) \<in> set vars \<and> (e, d, l2, s2) \<in> set vars \<longrightarrow>
           holds val (AddLe [(e, d, l1, s1), (e, d, l2, s2)] 1))"
    using True by (simp add: consecutive_block_def list_all_iff) blast
  then show ?thesis using True by (auto simp: sum_vars_def)
qed

lemma holds_constraint4:
  "list_all (holds val) (constraint4 sch vars) \<longleftrightarrow>
     (\<forall>e<num_employees sch. \<forall>d<num_days sch.
        list_all (holds val) (consecutive_block sch vars e d 0 1)
        \<and> list_all (holds val) (consecutive_block sch vars e d 1 2))"
  by (auto simp: constraint4_def list_all_iff)

lemma holds_constraint5:
  "list_all (holds val) (constraint5 sch vars) \<longleftrightarrow>
     (\<forall>e<num_employees sch. \<forall>week<2.
        total_shifts sch vars e week \<noteq> [] \<longrightarrow>
        min_shifts_per_employee_per_week sch \<le> sum_vars val (total_shifts sch vars e week)
        \<and> sum_vars val (total_shifts sch vars e week) \<le> max_shifts_per_employee_per_week sch)"
  by (auto simp: constraint5_def list_all_iff)

lemma length_concat_upt_le:
  assumes "\<And>i. i < n \<Longrightarrow> length (f i) \<le> b"
  shows "length (concat (map f [0..<n])) \<le> n * b"
  using assms
proof (induction n)
  case 0
  then show ?case by simp
next
  case (Suc n)
  have "length (concat (map f [0..<n])) \<le> n * b" using Suc by simp
  moreover have "length (f n) \<le> b" using Suc.prems by simp
  ultimately show ?case by simp
qed

lemma length_employee_total:
  "length (employee_total sch vars e) \<le> num_days sch * num_shifts_per_day sch * num_locations sch"
proof -
  have "length (employee_total sch vars e)
          \<le> num_days sch * (num_locations sch * (num_shifts_per_day sch * 1))"
    unfolding employee_total_def
    by (intro length_concat_upt_le) simp
  then show ?thesis by (simp add: mult.commute mult.left_commute)
qed

lemma set_employee_total: "set (employee_total sch vars e) \<subseteq> set vars"
  by (auto simp: employee_total_def)

lemma sum_vars_bool:
  assumes "\<forall>k\<in>set ks. val k = 0 \<or> val k = 1"
  shows "0 \<le> sum_vars val ks \<and> sum_vars val ks \<le> int (length ks)"
  using assms unfolding sum_vars_def
proof (induction ks)
  case Nil
  then show ?case by simp
next
  case (Cons k ks)
  then have "0 \<le> sum_list (map val ks) \<and> sum_list (map val ks) \<le> int (length ks)" by simp
  moreover have "val k = 0 \<or> val k = 1" using Cons.prems by simp
  ultimately show ?case by auto
qed

lemma objective_ok_bool:
  assumes "list_all (\<lambda>k. val k = 0 \<or> val k = 1) (shift_vars sch)"
  shows "objective_ok val (objective (build_model sch))"
proof (cases "employee_total_shifts sch (shift_vars sch) = []")
  case True
  then show ?thesis by (simp add: build_model_def Let_def objective_ok_def)
next
  case False
  let ?terms = "employee_total_shifts sch (shift_vars sch)"
  let ?ub = "num_days sch * num_shifts_per_day sch * num_locations sch"
  let ?M = "set (map (sum_vars val) ?terms)"
  have bounds: "0 \<le> x \<and> x \<le> int ?ub" if "x \<in> ?M" for x
  proof -
    from that obtain e where x: "x = sum_vars val (employee_total sch (shift_vars sch) e)"
      by (auto simp: employee_total_shifts_def)
    have "\<forall>k\<in>set (employee_total sch (shift_vars sch) e). val k = 0 \<or> val k = 1"
      using assms set_employee_total [of sch "shift_vars sch" e] by (auto simp: list_all_iff)
    from sum_vars_bool [OF this] length_employee_total [of sch "shift_vars sch" e]
    show ?thesis unfolding x by linarith
  qed
  have fin: "finite ?M" "?M \<noteq> {}" using False by simp_all
  then have "Min ?M \<in> ?M" by (rule Min_in)
  then have "0 \<le> Min ?M \<and> Min ?M \<le> int ?ub" using bounds by blast
  then show ?thesis using False by (simp add: build_model_def Let_def objective_ok_def)
qed

lemma feasible_iff:
  "feasible (build_model sch) val \<longleftrightarrow>
     list_all (\<lambda>k. val k = 0 \<or> val k = 1) (shift_vars sch)
     \<and> list_all (holds val) (constraint1 sch (shift_vars sch))
     \<and> list_all (holds val) (constraint2 sch (shift_vars sch))
     \<and> list_all (holds val) (constraint3 sch (shift_vars sch))
     \<and> list_all (holds val) (constraint4 sch (shift_vars sch))
     \<and> list_all (holds val) (constraint5 sch (shift_vars sch))"
  using objective_ok_bool [of val sch]
  by (auto simp: feasible_def build_model_def Let_def)

section \<open>The example where no employee is compatible with the first location\<close>

lemma upt_0_2: "[0..<2] = [0, 1::nat]" by (simp add: upt_rec)
lemma upt_0_4: "[0..<4] = [0, 1, 2, 3::nat]" by (simp add: upt_rec)
lemma upt_0_5: "[0..<5] = [0, 1, 2, 3, 4::nat]" by (simp add: upt_rec)
lemma upt_0_7: "[0..<7] = [0, 1, 2, 3, 4, 5, 6::nat]" by (simp add: upt_rec)
lemma upt_7_14: "[7..<14] = [7, 8, 9, 10, 11, 12, 13::nat]" by (simp add: upt_rec)

lemma upt_0_14: "[0..<14] = [0, 1, 2, 3, 4, 5, 6, 7, 8, 9, 10, 11, 12, 13::nat]"
  by (simp add: upt_rec)

lemma sch_x_fields:
  "num_employees sch_x = 4" "num_days sch_x = 14" "num_locations sch_x = 2"
  "num_shifts_per_day sch_x = 2" "min_employees_per_shift sch_x = 2"
  "min_shifts_per_employee_per_week sch_x = 5" "max_shifts_per_employee_per_week sch_x = 10"
  by (simp_all add: sch_x_def init_def two_shifts_def)

lemma compat_x:
  assumes "e < 4" "l < 2"
  shows "employee_has_required_skills (employees sch_x ! e) (locations sch_x ! l) \<longleftrightarrow> l = 1"
proof -
  have "e = 0 \<or> e = 1 \<or> e = 2 \<or> e = 3" using assms by arith
  moreover have "l = 0 \<or> l = 1" using assms by arith
  ultimately show ?thesis
    by (auto simp: sch_x_def init_def employee_has_required_skills_def get_or_def
        emp_with_def loc_with_def)
qed

lemma mem_x:
  "(e, d, l, s) \<in> set (shift_vars sch_x) \<longleftrightarrow> e < 4 \<and> d < 14 \<and> l = 1 \<and> s < 2"
  using compat_x [of e l] by (auto simp: shift_vars_mem sch_x_fields)

lemma val_x_bool: "list_all (\<lambda>k. val_x k = 0 \<or> val_x k = 1) (shift_vars sch_x)"
  by (auto simp: list_all_iff val_x_def)

lemma efs_x:
  "d < 14 \<Longrightarrow> s < 2 \<Longrightarrow> employees_for_shift sch_x (shift_vars sch_x) d l s =
     (if l = 1 then [(0, d, 1, s), (1, d, 1, s), (2, d, 1, s), (3, d, 1, s)] else [])"
  by (simp add: employees_for_shift_def sch_x_fields mem_x upt_0_4)

lemma sum_efs_x:
  assumes "d < 14" "s < 2"
  shows "2 \<le> sum_vars val_x (employees_for_shift sch_x (shift_vars sch_x) d 1 s)"
    and "sum_vars val_x (employees_for_shift sch_x (shift_vars sch_x) d 1 s) \<le> 20"
proof -
  have "s = 0 \<or> s = 1" using assms by arith
  then show "2 \<le> sum_vars val_x (employees_for_shift sch_x (shift_vars sch_x) d 1 s)"
    using assms by (auto simp: efs_x sum_vars_def val_x_def)
  show "sum_vars val_x (employees_for_shift sch_x (shift_vars sch_x) d 1 s) \<le> 20"
    using assms by (simp add: efs_x sum_vars_def val_x_def)
qed

lemma c1_x: "list_all (holds val_x) (constraint1 sch_x (shift_vars sch_x))"
  unfolding holds_constraint1 sch_x_fields
  using sum_efs_x(1) by (simp add: efs_x)

lemma capacity_x: "l < 2 \<Longrightarrow> get_or (capacity (locations sch_x ! l)) 20 = 20"
  by (auto simp: sch_x_def init_def loc_with_def get_or_def less_2_cases_iff)

lemma c2_x: "list_all (holds val_x) (constraint2 sch_x (shift_vars sch_x))"
  unfolding holds_constraint2 sch_x_fields
  using sum_efs_x(2) by (simp add: efs_x capacity_x)

lemma c3_x: "list_all (holds val_x) (constraint3 sch_x (shift_vars sch_x))"
  unfolding holds_constraint3 sch_x_fields
  by (simp add: shifts_for_time_def sch_x_fields mem_x upt_0_2 sum_vars_def val_x_def)

lemma c4_x: "list_all (holds val_x) (constraint4 sch_x (shift_vars sch_x))"
  unfolding holds_constraint4 holds_consecutive_block
  by (simp add: mem_x)

lemma week_days_x: "week_days sch_x 0 = [0..<7]" "week_days sch_x (Suc 0) = [7..<14]"
  by (simp_all add: week_days_def sch_x_fields)

lemma total_shifts_x:
  assumes "week < 2"
  shows "total_shifts sch_x (shift_vars sch_x) e week =
     (if e < 4 then [(e, d, 1, s). d \<leftarrow> [week * 7..<week * 7 + 7], s \<leftarrow> [0, 1]] else [])"
proof -
  have "week = 0 \<or> week = 1" using assms by arith
  then show ?thesis
    by (auto simp: total_shifts_def week_days_x sch_x_fields mem_x upt_0_2 upt_0_7 upt_7_14)
qed

lemma sum_total_shifts_x:
  assumes "e < 4" "week < 2"
  shows "sum_vars val_x (total_shifts sch_x (shift_vars sch_x) e week) =
           (if e = 0 \<and> week = 0 then 8 else 7)"
proof -
  have "e = 0 \<or> e = 1 \<or> e = 2 \<or> e = 3" using assms by arith
  moreover have "week = 0 \<or> week = 1" using assms by arith
  ultimately show ?thesis
    using assms
    by (auto simp: total_shifts_x sum_vars_def val_x_def upt_0_7 upt_7_14)
qed

lemma c5_x: "list_all (holds val_x) (constraint5 sch_x (shift_vars sch_x))"
  unfolding holds_constraint5 sch_x_fields
proof (intro allI impI)
  fix e week :: nat
  assume "e < 4" "week < 2"
  from sum_total_shifts_x [OF this]
  show "5 \<le> sum_vars val_x (total_shifts sch_x (shift_vars sch_x) e week) \<and>
        sum_vars val_x (total_shifts sch_x (shift_vars sch_x) e week) \<le> 10"
    by simp
qed

lemma feasible_x: "feasible (build_model sch_x) val_x"
  unfolding feasible_iff
  using val_x_bool c1_x c2_x c3_x c4_x c5_x by simp

section \<open>The example with an employee without skills\<close>

lemma sch_y_fields:
  "num_employees sch_y = 5" "num_days sch_y = 14" "num_locations sch_y = 1"
  "num_shifts_per_day sch_y = 2" "min_employees_per_shift sch_y = 2"
  "min_shifts_per_employee_per_week sch_y = 5" "max_shifts_per_employee_per_week sch_y = 10"
  by (simp_all add: sch_y_def init_def two_shifts_def)

lemma employees_y:
  "employees sch_y = [emp_with ''E1'' [''B''], emp_with ''E2'' [''B''], emp_with ''E3'' [''B''],
                      emp_with ''E4'' [''B''], emp_with ''E5'' []]"
  by (simp add: sch_y_def init_def)

lemma compat_y:
  assumes "e < 5"
  shows "employee_has_required_skills (employees sch_y ! e) (locations sch_y ! 0) \<longleftrightarrow> e < 4"
proof -
  have "e = 0 \<or> e = 1 \<or> e = 2 \<or> e = 3 \<or> e = 4" using assms by arith
  then show ?thesis
    by (auto simp: sch_y_def init_def employee_has_required_skills_def get_or_def
        emp_with_def loc_with_def)
qed

lemma mem_y:
  "(e, d, l, s) \<in> set (shift_vars sch_y) \<longleftrightarrow> e < 4 \<and> d < 14 \<and> l = 0 \<and> s < 2"
  using compat_y [of e] by (auto simp: shift_vars_mem sch_y_fields)

lemma val_y_bool: "list_all (\<lambda>k. val_y k = 0 \<or> val_y k = 1) (shift_vars sch_y)"
  by (auto simp: list_all_iff val_y_def)

lemma efs_y:
  "d < 14 \<Longrightarrow> s < 2 \<Longrightarrow> employees_for_shift sch_y (shift_vars sch_y) d 0 s =
     [(0, d, 0, s), (1, d, 0, s), (2, d, 0, s), (3, d, 0, s)]"
  by (simp add: employees_for_shift_def sch_y_fields mem_y upt_0_5)

lemma sum_efs_y:
  assumes "d < 14" "s < 2"
  shows "sum_vars val_y (employees_for_shift sch_y (shift_vars sch_y) d 0 s) = 2"
proof -
  have "s = 0 \<or> s = 1" using assms by arith
  then show ?thesis
    using assms by (auto simp: efs_y sum_vars_def val_y_def)
qed

lemma c1_y: "list_all (holds val_y) (constraint1 sch_y (shift_vars sch_y))"
  unfolding holds_constraint1 sch_y_fields
  by (simp add: sum_efs_y)

lemma c2_y: "list_all (holds val_y) (constraint2 sch_y (shift_vars sch_y))"
  unfolding holds_constraint2 sch_y_fields
  by (simp add: sum_efs_y) (simp add: sch_y_def init_def loc_with_def get_or_def)

lemma c3_y: "list_all (holds val_y) (constraint3 sch_y (shift_vars sch_y))"
  unfolding holds_constraint3 sch_y_fields
  by (simp add: shifts_for_time_def sch_y_fields mem_y sum_vars_def val_y_def)

lemma c4_y: "list_all (holds val_y) (constraint4 sch_y (shift_vars sch_y))"
  unfolding holds_constraint4 holds_consecutive_block sch_y_fields
  by (simp add: mem_y val_y_def)

lemma week_days_y: "week_days sch_y 0 = [0..<7]" "week_days sch_y (Suc 0) = [7..<14]"
  by (simp_all add: week_days_def sch_y_fields)

lemma total_shifts_y:
  assumes "week < 2"
  shows "total_shifts sch_y (shift_vars sch_y) e week =
     (if e < 4 then [(e, d, 0, s). d \<leftarrow> [week * 7..<week * 7 + 7], s \<leftarrow> [0, 1]] else [])"
proof -
  have "week = 0 \<or> week = 1" using assms by arith
  then show ?thesis
    by (auto simp: total_shifts_def week_days_y sch_y_fields mem_y upt_0_2 upt_0_7 upt_7_14)
qed

lemma sum_total_shifts_y:
  assumes "e < 4" "week < 2"
  shows "sum_vars val_y (total_shifts sch_y (shift_vars sch_y) e week) = 7"
proof -
  have "e = 0 \<or> e = 1 \<or> e = 2 \<or> e = 3" using assms by arith
  moreover have "week = 0 \<or> week = 1" using assms by arith
  ultimately show ?thesis
    using assms
    by (auto simp: total_shifts_y sum_vars_def val_y_def upt_0_7 upt_7_14)
qed

lemma c5_y: "list_all (holds val_y) (constraint5 sch_y (shift_vars sch_y))"
  unfolding holds_constraint5 sch_y_fields
proof (intro allI impI)
  fix e week :: nat
  assume "e < 5" "week < 2" "total_shifts sch_y (shift_vars sch_y) e week \<noteq> []"
  then have "e < 4" using total_shifts_y [of week e] by (auto split: if_splits)
  from sum_total_shifts_y [OF this \<open>week < 2\<close>]
  show "5 \<le> sum_vars val_y (total_shifts sch_y (shift_vars sch_y) e week) \<and>
        sum_vars val_y (total_shifts sch_y (shift_vars sch_y) e week) \<le> 10"
    by simp
qed

lemma feasible_y: "feasible (build_model sch_y) val_y"
  unfolding feasible_iff
  using val_y_bool c1_y c2_y c3_y c4_y c5_y by simp

text \<open>Constraint 4 is part of this model and the valuation respects it.\<close>

lemma constraint4_y:
  "AddLe [(0, 0, 0, 0), (0, 0, 0, 1)] 1 \<in> set (constraint4 sch_y (shift_vars sch_y))"
  unfolding constraint4_def sch_y_fields
  by (simp add: consecutive_block_def mem_y sch_y_fields upt_0_5 upt_0_14)

section \<open>The bounds of the constraints\<close>

lemma bound_consecutive_block:
  "c \<in> set (consecutive_block sch vars e d s1 s2) \<Longrightarrow> bound c = 1"
  by (auto simp: consecutive_block_def split: if_splits)

lemma bound_constraints:
  assumes "c \<in> set (constraints (build_model sch))"
  shows "bound c = min_employees_per_shift sch \<or> bound c = 1
       \<or> bound c = min_shifts_per_employee_per_week sch
       \<or> bound c = max_shifts_per_employee_per_week sch
       \<or> (\<exists>l<num_locations sch. bound c = get_or (capacity (locations sch ! l)) 20)"
proof -
  let ?vars = "shift_vars sch"
  from assms consider "c \<in> set (constraint1 sch ?vars)" | "c \<in> set (constraint2 sch ?vars)"
    | "c \<in> set (constraint3 sch ?vars)" | "c \<in> set (constraint4 sch ?vars)"
    | "c \<in> set (constraint5 sch ?vars)"
    by (auto simp: build_model_def Let_def)
  then show ?thesis
  proof cases
    case 1
    then show ?thesis by (auto simp: constraint1_def)
  next
    case 2
    then show ?thesis by (auto simp: constraint2_def)
  next
    case 3
    then show ?thesis by (auto simp: constraint3_def)
  next
    case 4
    then show ?thesis by (auto simp: constraint4_def dest: bound_consecutive_block)
  next
    case 5
    then show ?thesis by (auto simp: constraint5_def split: if_splits)
  qed
qed

lemma int64_1: "int64 1"
  by (simp add: int64_def)

lemma bounds_int64_constraints:
  assumes "bounds_int64 sch"
  shows "list_all (\<lambda>c. int64 (bound c)) (constraints (build_model sch))"
  unfolding list_all_iff
proof
  fix c
  assume "c \<in> set (constraints (build_model sch))"
  from bound_constraints [OF this] assms int64_1 show "int64 (bound c)"
    by (auto simp: bounds_int64_def)
qed

lemma find_none_int64:
  "find (\<lambda>c. \<not> int64 (bound c)) cs = None \<longleftrightarrow> list_all (\<lambda>c. int64 (bound c)) cs"
  by (auto simp: find_None_iff list_all_iff)

lemma bad_bound_emitted:
  assumes "c \<in> set cs" "\<not> int64 (bound c)"
  shows "\<not> list_all (\<lambda>c. int64 (bound c)) cs"
  using assms by (auto simp: list_all_iff)

lemma find_some_int64:
  assumes "\<not> list_all (\<lambda>c. int64 (bound c)) cs"
  shows "\<exists>c. find (\<lambda>c. \<not> int64 (bound c)) cs = Some c \<and> c \<in> set cs \<and> \<not> int64 (bound c)"
proof (cases "find (\<lambda>c. \<not> int64 (bound c)) cs")
  case None
  then show ?thesis using assms by (simp add: find_none_int64)
next
  case (Some c)
  then show ?thesis by (auto simp: find_Some_iff)
qed

section \<open>Running the generator\<close>

lemma generate_schedule_success:
  assumes "list_all (\<lambda>c. int64 (bound c)) (constraints (build_model sch))"
    and "solve (build_model sch) = (st, val)" "st = OPTIMAL \<or> st = FEASIBLE"
  shows "\<exists>r. generate_schedule sch now solve rnd = Inr r
            \<and> schedule r = extract_schedule sch (shift_vars sch) val
            \<and> res_statistics r = calculate_statistics rnd (schedule r)"
proof -
  have "find (\<lambda>c. \<not> int64 (bound c)) (constraints (build_model sch)) = None"
    using assms(1) by (simp add: find_none_int64)
  moreover have "variables (build_model sch) = shift_vars sch"
    by (simp add: build_model_def Let_def)
  ultimately show ?thesis
    using assms(2,3) by (auto simp: generate_schedule_def Let_def)
qed

lemma generate_schedule_failure:
  assumes "list_all (\<lambda>c. int64 (bound c)) (constraints (build_model sch))"
    and "fst (solve (build_model sch)) \<noteq> OPTIMAL" "fst (solve (build_model sch)) \<noteq> FEASIBLE"
  shows "generate_schedule sch now solve rnd = Inl (SolverFailed (fst (solve (build_model sch))))"
proof -
  have "find (\<lambda>c. \<not> int64 (bound c)) (constraints (build_model sch)) = None"
    using assms(1) by (simp add: find_none_int64)
  then show ?thesis
    using assms(2,3)
    by (cases "solve (build_model sch)") (simp add: generate_schedule_def Let_def)
qed

lemma generate_schedule_refused:
  assumes "\<not> list_all (\<lambda>c. int64 (bound c)) (constraints (build_model sch))"
  shows "\<exists>c. c \<in> set (constraints (build_model sch)) \<and> \<not> int64 (bound c)
            \<and> generate_schedule sch now solve rnd = Inl (BoundOutOfRange (bound c))"
proof -
  from find_some_int64 [OF assms] obtain c
    where "find (\<lambda>c. \<not> int64 (bound c)) (constraints (build_model sch)) = Some c"
      and "c \<in> set (constraints (build_model sch))" "\<not> int64 (bound c)"
    by blast
  then show ?thesis
    by (auto simp: generate_schedule_def Let_def)
qed

lemma generate_schedule_Inr:
  assumes "generate_schedule sch now solve rnd = Inr r"
  shows "fst (solve (build_model sch)) = OPTIMAL \<or> fst (solve (build_model sch)) = FEASIBLE"
    and "schedule r = extract_schedule sch (shift_vars sch) (snd (solve (build_model sch)))"
    and "res_statistics r = calculate_statistics rnd (schedule r)"
proof -
  have ok: "list_all (\<lambda>c. int64 (bound c)) (constraints (build_model sch))"
    using generate_schedule_refused [of sch now solve rnd] assms by auto
  show verdict: "fst (solve (build_model sch)) = OPTIMAL \<or> fst (solve (build_model sch)) = FEASIBLE"
    using generate_schedule_failure [OF ok, of solve now rnd] assms by auto
  obtain st val where sv: "solve (build_model sch) = (st, val)"
    by (cases "solve (build_model sch)") auto
  with verdict have "st = OPTIMAL \<or> st = FEASIBLE" by simp
  from generate_schedule_success [of sch solve st val now rnd, OF ok sv this] assms sv
  show "schedule r = extract_schedule sch (shift_vars sch) (snd (solve (build_model sch)))"
    and "res_statistics r = calculate_statistics rnd (schedule r)"
    by auto
qed

lemma bounds_int64_x: "bounds_int64 sch_x"
  by (simp add: bounds_int64_def sch_x_fields capacity_x int64_def)

lemma bounds_int64_y: "bounds_int64 sch_y"
  by (simp add: bounds_int64_def sch_y_fields int64_def)
     (simp add: sch_y_def init_def loc_with_def get_or_def)

lemma generate_x:
  "\<exists>r. generate_schedule sch_x now solve_x rnd = Inr r
      \<and> schedule r = extract_schedule sch_x (shift_vars sch_x) val_x
      \<and> res_statistics r = calculate_statistics rnd (schedule r)"
  by (rule generate_schedule_success [where st = FEASIBLE])
     (simp_all add: solve_x_def bounds_int64_constraints [OF bounds_int64_x])

lemma generate_y:
  "\<exists>r. generate_schedule sch_y now solve_y rnd = Inr r
      \<and> schedule r = extract_schedule sch_y (shift_vars sch_y) val_y
      \<and> res_statistics r = calculate_statistics rnd (schedule r)"
  by (rule generate_schedule_success [where st = FEASIBLE])
     (simp_all add: solve_y_def bounds_int64_constraints [OF bounds_int64_y])

section \<open>Weekly volume\<close>

lemma total_shifts_mem:
  "k \<in> set (total_shifts sch vars e week) \<longleftrightarrow>
     (case k of (e', d, l, s) \<Rightarrow> e' = e \<and> week * 7 \<le> d \<and> d < (week + 1) * 7 \<and> d < num_days sch
        \<and> l < num_locations sch \<and> s < num_shifts_per_day sch \<and> k \<in> set vars)"
  by (cases k) (auto simp: total_shifts_def week_days_def)

lemma distinct_total_shifts: "distinct (total_shifts sch vars e week)"
proof -
  have "sorted_wrt key_less (total_shifts sch vars e week)"
    unfolding total_shifts_def week_days_def
    apply (rule sorted_wrt_concat_upt)
     apply (rule sorted_wrt_concat_upt)
      apply (rule sorted_wrt_concat_upt)
       apply (auto simp: key_less_def split: if_splits)
    done
  then show ?thesis by (rule sorted_key_less_distinct)
qed

lemma sum_vars_card:
  assumes "distinct ks" "\<forall>k\<in>set ks. val k = 0 \<or> val k = 1"
  shows "sum_vars val ks = int (card {k \<in> set ks. val k = 1})"
  using assms unfolding sum_vars_def
proof (induction ks)
  case Nil
  then show ?case by simp
next
  case (Cons k ks)
  have ih: "sum_list (map val ks) = int (card {x \<in> set ks. val x = 1})"
    using Cons by simp
  have fin: "finite {x \<in> set ks. val x = 1}" by simp
  show ?case
  proof (cases "val k = 1")
    case True
    have "{x \<in> set (k # ks). val x = 1} = insert k {x \<in> set ks. val x = 1}"
      using True by auto
    moreover have "k \<notin> {x \<in> set ks. val x = 1}" using Cons.prems(1) by simp
    ultimately show ?thesis using True ih fin by simp
  next
    case False
    then have "val k = 0" using Cons.prems(2) by simp
    moreover have "{x \<in> set (k # ks). val x = 1} = {x \<in> set ks. val x = 1}"
      using False by auto
    ultimately show ?thesis using ih by simp
  qed
qed

lemma weekly_total_sum_vars:
  assumes "list_all (\<lambda>k. val k = 0 \<or> val k = 1) (shift_vars sch)" "e < num_employees sch"
  shows "int (weekly_total (extracted_keys sch (shift_vars sch) val) e week)
           = sum_vars val (total_shifts sch (shift_vars sch) e week)"
proof -
  let ?ks = "extracted_keys sch (shift_vars sch) val"
  let ?ts = "total_shifts sch (shift_vars sch) e week"
  let ?P = "\<lambda>k. case k of (e', d, l, s) \<Rightarrow> e' = e \<and> week * 7 \<le> d \<and> d < (week + 1) * 7"
  have "weekly_total ?ks e week = card (set (filter ?P ?ks))"
    unfolding weekly_total_def
    using distinct_extracted_keys [of sch "shift_vars sch" val]
    by (simp add: distinct_card del: set_filter)
  moreover have "set (filter ?P ?ks) = {k \<in> set ?ts. val k = 1}"
    using assms(2) by (auto simp: extracted_keys_mem total_shifts_mem shift_vars_mem)
  moreover have "\<forall>k\<in>set ?ts. val k = 0 \<or> val k = 1"
    using assms(1) by (auto simp: list_all_iff total_shifts_mem)
  ultimately show ?thesis
    using sum_vars_card [OF distinct_total_shifts, of sch "shift_vars sch" e week val] by simp
qed

lemma total_shifts_nonempty:
  "total_shifts sch (shift_vars sch) e week \<noteq> [] \<longleftrightarrow>
     (\<exists>d l s. week * 7 \<le> d \<and> d < (week + 1) * 7 \<and> (e, d, l, s) \<in> set (shift_vars sch))"
proof -
  have "total_shifts sch (shift_vars sch) e week \<noteq> [] \<longleftrightarrow>
        (\<exists>k. k \<in> set (total_shifts sch (shift_vars sch) e week))"
    by (cases "total_shifts sch (shift_vars sch) e week") auto
  also have "\<dots> \<longleftrightarrow> (\<exists>d l s. week * 7 \<le> d \<and> d < (week + 1) * 7 \<and> (e, d, l, s) \<in> set (shift_vars sch))"
    by (auto simp: total_shifts_mem shift_vars_mem)
  finally show ?thesis .
qed

lemma weekly_bounds_feasible:
  assumes "feasible (build_model sch) val" "e < num_employees sch" "week < 2"
  shows "((\<exists>d l s. week * 7 \<le> d \<and> d < (week + 1) * 7 \<and> (e, d, l, s) \<in> set (shift_vars sch))
            \<longrightarrow> min_shifts_per_employee_per_week sch
                  \<le> int (weekly_total (extracted_keys sch (shift_vars sch) val) e week)
              \<and> int (weekly_total (extracted_keys sch (shift_vars sch) val) e week)
                  \<le> max_shifts_per_employee_per_week sch)
       \<and> (\<not> (\<exists>d l s. week * 7 \<le> d \<and> d < (week + 1) * 7 \<and> (e, d, l, s) \<in> set (shift_vars sch))
            \<longrightarrow> weekly_total (extracted_keys sch (shift_vars sch) val) e week = 0)"
proof -
  let ?ts = "total_shifts sch (shift_vars sch) e week"
  let ?w = "weekly_total (extracted_keys sch (shift_vars sch) val) e week"
  have bool: "list_all (\<lambda>k. val k = 0 \<or> val k = 1) (shift_vars sch)"
    and c5: "list_all (holds val) (constraint5 sch (shift_vars sch))"
    using assms(1) by (simp_all add: feasible_iff)
  have count: "int ?w = sum_vars val ?ts"
    using weekly_total_sum_vars [OF bool assms(2)] .
  have with_vars: "min_shifts_per_employee_per_week sch \<le> int ?w
                   \<and> int ?w \<le> max_shifts_per_employee_per_week sch" if "?ts \<noteq> []"
    using c5 assms(2,3) that unfolding holds_constraint5 count by blast
  have without_vars: "?w = 0" if "?ts = []"
    using count that by (simp add: sum_vars_def)
  show ?thesis
    using with_vars without_vars total_shifts_nonempty [of sch e week] by blast
qed

text \<open>
  C2 (as amended). In every successful result the schedule is the list of records of the
  emitted keys, and an employee who has at least one decision variable on a day of week
  \<open>w\<close> works between \<open>min_week\<close> and \<open>max_week\<close> shifts in that week; an employee without one
  (compatible with no location, or no shift in the template) is under no weekly constraint
  and works no shift in it.
\<close>

theorem weekly_bounds_with_variables:
  assumes "solver_contract (build_model sch) (solve (build_model sch))"
    and "generate_schedule sch now solve rnd = Inr r"
    and "e < num_employees sch" "week < 2"
  shows "schedule r = map (make_assignment sch)
                        (extracted_keys sch (shift_vars sch) (snd (solve (build_model sch))))
       \<and> ((\<exists>d l s. week * 7 \<le> d \<and> d < (week + 1) * 7 \<and> (e, d, l, s) \<in> set (shift_vars sch))
            \<longrightarrow> min_shifts_per_employee_per_week sch
                  \<le> int (weekly_total (extracted_keys sch (shift_vars sch)
                                           (snd (solve (build_model sch)))) e week)
              \<and> int (weekly_total (extracted_keys sch (shift_vars sch)
                                       (snd (solve (build_model sch)))) e week)
                  \<le> max_shifts_per_employee_per_week sch)
       \<and> (\<not> (\<exists>d l s. week * 7 \<le> d \<and> d < (week + 1) * 7 \<and> (e, d, l, s) \<in> set (shift_vars sch))
            \<longrightarrow> weekly_total (extracted_keys sch (shift_vars sch)
                                (snd (solve (build_model sch)))) e week = 0)"
proof -
  have "fst (solve (build_model sch)) = OPTIMAL \<or> fst (solve (build_model sch)) = FEASIBLE"
    using assms(2) by (rule generate_schedule_Inr(1))
  then have feas: "feasible (build_model sch) (snd (solve (build_model sch)))"
    using assms(1) by (simp add: solver_contract_def)
  have "schedule r = map (make_assignment sch)
                        (extracted_keys sch (shift_vars sch) (snd (solve (build_model sch))))"
    using generate_schedule_Inr(2) [OF assms(2)] by (simp add: extract_schedule_map)
  then show ?thesis
    using weekly_bounds_feasible [OF feas assms(3,4)] by blast
qed

theorem weekly_bounds_with_variables_witness:
  "solver_contract (build_model sch_y) (solve_y (build_model sch_y))
   \<and> (\<forall>rnd. \<exists>r. generate_schedule sch_y ''t'' solve_y rnd = Inr r)
   \<and> (0::nat) < num_employees sch_y \<and> (0::nat) < 2
   \<and> (0, 0, 0, 0) \<in> set (shift_vars sch_y)
   \<and> 5 \<le> int (weekly_total (extracted_keys sch_y (shift_vars sch_y) val_y) 0 0)
   \<and> int (weekly_total (extracted_keys sch_y (shift_vars sch_y) val_y) 0 0) \<le> 10"
proof -
  have contract: "solver_contract (build_model sch_y) (solve_y (build_model sch_y))"
    using feasible_y by (simp add: solver_contract_def solve_y_def)
  have run: "\<exists>r. generate_schedule sch_y ''t'' solve_y rnd = Inr r" for rnd
    using generate_y [of "''t''" rnd] by blast
  then obtain r where r: "generate_schedule sch_y ''t'' solve_y (\<lambda>x n. x) = Inr r"
    by blast
  have e: "(0::nat) < num_employees sch_y" and w: "(0::nat) < 2"
    by (simp_all add: sch_y_fields)
  have var: "(0, 0, 0, 0) \<in> set (shift_vars sch_y)" by (simp add: mem_y)
  then have "\<exists>d l s. 0 * 7 \<le> d \<and> d < (0 + 1) * 7 \<and> (0, d, l, s) \<in> set (shift_vars sch_y)"
    by (intro exI [of _ 0]) simp
  with weekly_bounds_with_variables [OF contract r e w]
  have "min_shifts_per_employee_per_week sch_y
          \<le> int (weekly_total (extracted_keys sch_y (shift_vars sch_y)
                                (snd (solve_y (build_model sch_y)))) 0 0)
        \<and> int (weekly_total (extracted_keys sch_y (shift_vars sch_y)
                                (snd (solve_y (build_model sch_y)))) 0 0)
          \<le> max_shifts_per_employee_per_week sch_y"
    by blast
  then show ?thesis
    using contract run e var by (auto simp: sch_y_fields solve_y_def)
qed

text \<open>
  The claim as stated fails: the fifth employee of the example has no skill and so no
  decision variable; the solver may answer with a valuation that satisfies the whole model,
  and that employee's weekly total is 0, below the minimum of 5.
\<close>

lemma weekly_total_idle_y:
  "weekly_total (extracted_keys sch_y (shift_vars sch_y) val_y) 4 week = 0"
  by (auto simp: weekly_total_def filter_empty_conv extracted_keys_mem mem_y)

theorem weekly_minimum_counterexample:
  "feasible (build_model sch_y) val_y
   \<and> (\<forall>rnd. \<exists>r. generate_schedule sch_y ''t'' solve_y rnd = Inr r
          \<and> schedule r = map (make_assignment sch_y)
                             (extracted_keys sch_y (shift_vars sch_y) val_y))
   \<and> 4 < num_employees sch_y
   \<and> \<not> (min_shifts_per_employee_per_week sch_y
          \<le> int (weekly_total (extracted_keys sch_y (shift_vars sch_y) val_y) 4 0))"
proof -
  have "\<exists>r. generate_schedule sch_y ''t'' solve_y rnd = Inr r
          \<and> schedule r = map (make_assignment sch_y)
                             (extracted_keys sch_y (shift_vars sch_y) val_y)" for rnd
    using generate_y [of "''t''" rnd] by (auto simp: extract_schedule_map)
  then show ?thesis
    using feasible_y weekly_total_idle_y [of 0] by (simp add: sch_y_fields)
qed

section \<open>Consecutive shifts\<close>

lemma make_assignment_x:
  "make_assignment sch_x (0, 0, 1, s) =
     \<lparr> employee_id = IdStr ''E1'', employee_name = ''E1'', date = 0,
       location_id = IdStr ''L2'', location_name = ''L2'',
       shift_id = s_id (two_shifts ! s), shift_name = s_name (two_shifts ! s),
       start_time = s_start_time (two_shifts ! s), end_time = s_end_time (two_shifts ! s) \<rparr>"
  by (simp add: make_assignment_def sch_x_def init_def emp_with_def loc_with_def upt_rec)

text \<open>
  C1. The property: in every successful result no employee holds two assignments on one
  day at adjacent shift indices. The model does not enforce it for every employee:
  constraint 4 is added for an employee and a day only when the employee has variables at
  location index 0. In the example no employee is compatible with the first location, so
  the model has no constraint on consecutive shifts at all; a valuation that satisfies the
  whole model has employee 0 on the morning and on the afternoon shift of day 0, and the
  generated schedule holds both records.
\<close>

theorem consecutive_shifts_unconstrained:
  "feasible (build_model sch_x) val_x
   \<and> \<not> employee_has_required_skills (employees sch_x ! 0) (locations sch_x ! 0)
   \<and> constraint4 sch_x (shift_vars sch_x) = []
   \<and> adjacent_shifts (extracted_keys sch_x (shift_vars sch_x) val_x) (0, 0, 1, 0) (0, 0, 1, 1)
   \<and> (\<forall>rnd. \<exists>r. generate_schedule sch_x ''t'' solve_x rnd = Inr r
        \<and> \<lparr> employee_id = IdStr ''E1'', employee_name = ''E1'', date = 0,
             location_id = IdStr ''L2'', location_name = ''L2'',
             shift_id = IdStr ''morning'', shift_name = ''Morning'',
             start_time = ''06:00'', end_time = ''14:00'' \<rparr> \<in> set (schedule r)
        \<and> \<lparr> employee_id = IdStr ''E1'', employee_name = ''E1'', date = 0,
             location_id = IdStr ''L2'', location_name = ''L2'',
             shift_id = IdStr ''afternoon'', shift_name = ''Afternoon'',
             start_time = ''14:00'', end_time = ''22:00'' \<rparr> \<in> set (schedule r))"
proof -
  let ?ks = "extracted_keys sch_x (shift_vars sch_x) val_x"
  have incompatible: "\<not> employee_has_required_skills (employees sch_x ! 0) (locations sch_x ! 0)"
    using compat_x [of 0 0] by simp
  have no_c4: "constraint4 sch_x (shift_vars sch_x) = []"
    by (simp add: constraint4_def consecutive_block_def mem_x)
  have keys: "(0, 0, 1, 0) \<in> set ?ks" "(0, 0, 1, 1) \<in> set ?ks"
    by (simp_all add: extracted_keys_mem mem_x sch_x_fields val_x_def)
  then have adj: "adjacent_shifts ?ks (0, 0, 1, 0) (0, 0, 1, 1)"
    by (simp add: adjacent_shifts_def)
  have run: "\<exists>r. generate_schedule sch_x ''t'' solve_x rnd = Inr r
        \<and> \<lparr> employee_id = IdStr ''E1'', employee_name = ''E1'', date = 0,
             location_id = IdStr ''L2'', location_name = ''L2'',
             shift_id = IdStr ''morning'', shift_name = ''Morning'',
             start_time = ''06:00'', end_time = ''14:00'' \<rparr> \<in> set (schedule r)
        \<and> \<lparr> employee_id = IdStr ''E1'', employee_name = ''E1'', date = 0,
             location_id = IdStr ''L2'', location_name = ''L2'',
             shift_id = IdStr ''afternoon'', shift_name = ''Afternoon'',
             start_time = ''14:00'', end_time = ''22:00'' \<rparr> \<in> set (schedule r)" for rnd
  proof -
    obtain r where r: "generate_schedule sch_x ''t'' solve_x rnd = Inr r"
      and sched: "schedule r = extract_schedule sch_x (shift_vars sch_x) val_x"
      using generate_x [of "''t''" rnd] by blast
    have "make_assignment sch_x (0, 0, 1, 0) \<in> set (schedule r)"
         "make_assignment sch_x (0, 0, 1, 1) \<in> set (schedule r)"
      using keys unfolding sched extract_schedule_map by (simp_all del: One_nat_def)
    then have
      "\<lparr> employee_id = IdStr ''E1'', employee_name = ''E1'', date = 0,
         location_id = IdStr ''L2'', location_name = ''L2'',
         shift_id = IdStr ''morning'', shift_name = ''Morning'',
         start_time = ''06:00'', end_time = ''14:00'' \<rparr> \<in> set (schedule r)"
      "\<lparr> employee_id = IdStr ''E1'', employee_name = ''E1'', date = 0,
         location_id = IdStr ''L2'', location_name = ''L2'',
         shift_id = IdStr ''afternoon'', shift_name = ''Afternoon'',
         start_time = ''14:00'', end_time = ''22:00'' \<rparr> \<in> set (schedule r)"
      unfolding make_assignment_x by (simp_all add: two_shifts_def)
    with r show ?thesis by blast
  qed
  show ?thesis
    using feasible_x incompatible no_c4 adj run by blast
qed

section \<open>Input validation\<close>

lemma shift_vars_empty:
  assumes "num_employees sch = 0 \<or> num_locations sch = 0 \<or> num_shifts_per_day sch = 0"
  shows "shift_vars sch = []"
  using assms by (auto simp: shift_vars_def)

lemma build_model_no_vars:
  assumes "shift_vars sch = []"
  shows "build_model sch = \<lparr> variables = [], constraints = [], objective = None \<rparr>"
proof -
  have "constraint1 sch [] = []" "constraint2 sch [] = []"
    by (simp_all add: constraint1_def constraint2_def employees_for_shift_def)
  moreover have "constraint3 sch [] = []"
    by (simp add: constraint3_def shifts_for_time_def)
  moreover have "constraint4 sch [] = []"
    by (simp add: constraint4_def consecutive_block_def)
  moreover have "constraint5 sch [] = []"
    by (simp add: constraint5_def total_shifts_def)
  moreover have "employee_total_shifts sch [] = []"
    by (simp add: employee_total_shifts_def employee_total_def)
  ultimately show ?thesis
    using assms by (simp add: build_model_def)
qed

lemma extracted_keys_no_vars: "extracted_keys sch [] val = []"
  by (simp add: extracted_keys_def)

lemma employees_for_shift_mem:
  assumes "(e, d, l, s) \<in> set (shift_vars sch)"
  shows "(e, d, l, s) \<in> set (employees_for_shift sch (shift_vars sch) d l s)"
  using assms by (auto simp: employees_for_shift_def shift_vars_mem)

lemma coverage_constraint_emitted:
  assumes "(e, d, l, s) \<in> set (shift_vars sch)"
  shows "AddGe (employees_for_shift sch (shift_vars sch) d l s) (min_employees_per_shift sch)
           \<in> set (constraint1 sch (shift_vars sch))"
proof -
  have ne: "employees_for_shift sch (shift_vars sch) d l s \<noteq> []"
    using employees_for_shift_mem [OF assms] by auto
  have range: "d < num_days sch" "l < num_locations sch" "s < num_shifts_per_day sch"
    using assms by (simp_all add: shift_vars_mem)
  show ?thesis
    unfolding constraint1_def using ne range
    by simp (rule bexI [of _ d], rule bexI [of _ l], rule bexI [of _ s], simp_all)
qed

lemma capacity_constraint_emitted:
  assumes "(e, d, l, s) \<in> set (shift_vars sch)"
  shows "AddLe (employees_for_shift sch (shift_vars sch) d l s)
               (get_or (capacity (locations sch ! l)) 20)
           \<in> set (constraints (build_model sch))"
proof -
  have ne: "employees_for_shift sch (shift_vars sch) d l s \<noteq> []"
    using employees_for_shift_mem [OF assms] by auto
  have range: "d < num_days sch" "l < num_locations sch" "s < num_shifts_per_day sch"
    using assms by (simp_all add: shift_vars_mem)
  have "AddLe (employees_for_shift sch (shift_vars sch) d l s)
               (get_or (capacity (locations sch ! l)) 20) \<in> set (constraint2 sch (shift_vars sch))"
    unfolding constraint2_def using ne range
    by simp (rule bexI [of _ d], rule bexI [of _ l], rule conjI, rule bexI [of _ s], simp_all)
  then show ?thesis by (simp add: build_model_def Let_def)
qed

lemma coverage_constraint_first:
  assumes "shift_vars sch \<noteq> []"
  shows "\<exists>ks rest. constraints (build_model sch) = AddGe ks (min_employees_per_shift sch) # rest"
proof -
  obtain k where k: "k \<in> set (shift_vars sch)"
    using assms by (cases "shift_vars sch") auto
  obtain e d l s where "k = (e, d, l, s)"
    by (cases k) auto
  with k have "(e, d, l, s) \<in> set (shift_vars sch)" by simp
  from coverage_constraint_emitted [OF this]
  obtain c cs where c1: "constraint1 sch (shift_vars sch) = c # cs"
    by (cases "constraint1 sch (shift_vars sch)") auto
  then have "c \<in> set (constraint1 sch (shift_vars sch))" by simp
  then obtain ks where "c = AddGe ks (min_employees_per_shift sch)"
    by (auto simp: constraint1_def)
  with c1 show ?thesis by (simp add: build_model_def Let_def)
qed

text \<open>
  C3 (as amended). \<^verbatim>\<open>generate_schedule\<close> validates nothing and has no error for an invalid
  input. On the inputs of the model a run ends without a result in two ways only: the
  solver's verdict is neither \<open>OPTIMAL\<close> nor \<open>FEASIBLE\<close>, and the failure carries that verdict;
  or a constraint is added whose bound does not fit a signed 64-bit integer, and the run
  ends before the solver is called. When the minimum per shift, the weekly bounds and the
  capacities fit, the verdict alone decides, whatever the capacities' signs, the order of
  the weekly bounds and the identifiers are. A minimum per shift that does not fit ends the
  run as soon as there is a variable, and so does the capacity of a location that has one.
  With no employee, no location or no shift the model has no variable, no constraint and no
  objective, and the verdict \<open>OPTIMAL\<close> or \<open>FEASIBLE\<close> gives a successful result with an
  empty schedule.
\<close>

theorem generate_schedule_no_validation:
  "(generate_schedule sch now solve rnd = Inl err \<longrightarrow>
      (fst (solve (build_model sch)) \<noteq> OPTIMAL \<and> fst (solve (build_model sch)) \<noteq> FEASIBLE
       \<and> err = SolverFailed (fst (solve (build_model sch))))
      \<or> (\<exists>n. \<not> int64 n \<and> err = BoundOutOfRange n))
   \<and> (bounds_int64 sch \<longrightarrow>
        (generate_schedule sch now solve rnd = Inl err \<longleftrightarrow>
           fst (solve (build_model sch)) \<noteq> OPTIMAL \<and> fst (solve (build_model sch)) \<noteq> FEASIBLE
           \<and> err = SolverFailed (fst (solve (build_model sch))))
        \<and> (fst (solve (build_model sch)) = OPTIMAL \<or> fst (solve (build_model sch)) = FEASIBLE \<longrightarrow>
             (\<exists>r. generate_schedule sch now solve rnd = Inr r
                  \<and> schedule r = extract_schedule sch (shift_vars sch)
                                   (snd (solve (build_model sch))))))
   \<and> (shift_vars sch \<noteq> [] \<and> \<not> int64 (min_employees_per_shift sch) \<longrightarrow>
        generate_schedule sch now solve rnd
          = Inl (BoundOutOfRange (min_employees_per_shift sch)))
   \<and> ((\<exists>e d l s. (e, d, l, s) \<in> set (shift_vars sch)
                  \<and> \<not> int64 (get_or (capacity (locations sch ! l)) 20)) \<longrightarrow>
        (\<exists>n. \<not> int64 n \<and> generate_schedule sch now solve rnd = Inl (BoundOutOfRange n)))
   \<and> (num_employees sch = 0 \<or> num_locations sch = 0 \<or> num_shifts_per_day sch = 0 \<longrightarrow>
        build_model sch = \<lparr> variables = [], constraints = [], objective = None \<rparr>
        \<and> (fst (solve (build_model sch)) = OPTIMAL \<or> fst (solve (build_model sch)) = FEASIBLE \<longrightarrow>
             (\<exists>r. generate_schedule sch now solve rnd = Inr r \<and> schedule r = [])))"
proof -
  let ?ok = "list_all (\<lambda>c. int64 (bound c)) (constraints (build_model sch))"
  let ?st = "fst (solve (build_model sch))"
  have decided: "(generate_schedule sch now solve rnd = Inl err \<longleftrightarrow>
           ?st \<noteq> OPTIMAL \<and> ?st \<noteq> FEASIBLE \<and> err = SolverFailed ?st)
        \<and> (?st = OPTIMAL \<or> ?st = FEASIBLE \<longrightarrow>
             (\<exists>r. generate_schedule sch now solve rnd = Inr r
                  \<and> schedule r = extract_schedule sch (shift_vars sch)
                                   (snd (solve (build_model sch)))))" if ok: ?ok
  proof -
    obtain st val where sv: "solve (build_model sch) = (st, val)"
      by (cases "solve (build_model sch)") auto
    show ?thesis
    proof (cases "st = OPTIMAL \<or> st = FEASIBLE")
      case True
      from generate_schedule_success [of sch solve st val now rnd, OF ok sv True] sv True
      show ?thesis by auto
    next
      case False
      with generate_schedule_failure [OF ok, of solve now rnd] sv
      show ?thesis by auto
    qed
  qed
  have refused: "\<exists>n. \<not> int64 n \<and> generate_schedule sch now solve rnd = Inl (BoundOutOfRange n)"
    if "\<not> ?ok"
    using generate_schedule_refused [OF that, of now solve rnd] by blast
  have classified: "(?st \<noteq> OPTIMAL \<and> ?st \<noteq> FEASIBLE \<and> err = SolverFailed ?st)
      \<or> (\<exists>n. \<not> int64 n \<and> err = BoundOutOfRange n)"
    if "generate_schedule sch now solve rnd = Inl err"
  proof (cases ?ok)
    case True
    with decided that show ?thesis by blast
  next
    case False
    with refused that show ?thesis by auto
  qed
  have fit: "(generate_schedule sch now solve rnd = Inl err \<longleftrightarrow>
           ?st \<noteq> OPTIMAL \<and> ?st \<noteq> FEASIBLE \<and> err = SolverFailed ?st)
        \<and> (?st = OPTIMAL \<or> ?st = FEASIBLE \<longrightarrow>
             (\<exists>r. generate_schedule sch now solve rnd = Inr r
                  \<and> schedule r = extract_schedule sch (shift_vars sch)
                                   (snd (solve (build_model sch)))))" if "bounds_int64 sch"
    using decided bounds_int64_constraints [OF that] by blast
  have minimum: "generate_schedule sch now solve rnd
          = Inl (BoundOutOfRange (min_employees_per_shift sch))"
    if "shift_vars sch \<noteq> [] \<and> \<not> int64 (min_employees_per_shift sch)"
  proof -
    from that coverage_constraint_first [of sch] obtain ks rest
      where "constraints (build_model sch) = AddGe ks (min_employees_per_shift sch) # rest"
      by blast
    with that show ?thesis by (simp add: generate_schedule_def Let_def)
  qed
  have capacity: "\<exists>n. \<not> int64 n \<and> generate_schedule sch now solve rnd = Inl (BoundOutOfRange n)"
    if "\<exists>e d l s. (e, d, l, s) \<in> set (shift_vars sch)
                  \<and> \<not> int64 (get_or (capacity (locations sch ! l)) 20)"
  proof -
    from that obtain e d l s where var: "(e, d, l, s) \<in> set (shift_vars sch)"
      and bad: "\<not> int64 (get_or (capacity (locations sch ! l)) 20)"
      by blast
    have "\<not> ?ok"
      by (rule bad_bound_emitted [OF capacity_constraint_emitted [OF var]]) (simp add: bad)
    then show ?thesis by (rule refused)
  qed
  have empty: "build_model sch = \<lparr> variables = [], constraints = [], objective = None \<rparr>
        \<and> (?st = OPTIMAL \<or> ?st = FEASIBLE \<longrightarrow>
             (\<exists>r. generate_schedule sch now solve rnd = Inr r \<and> schedule r = []))"
    if "num_employees sch = 0 \<or> num_locations sch = 0 \<or> num_shifts_per_day sch = 0"
  proof -
    have vars: "shift_vars sch = []" using that by (rule shift_vars_empty)
    then have model: "build_model sch = \<lparr> variables = [], constraints = [], objective = None \<rparr>"
      by (rule build_model_no_vars)
    then have ?ok by simp
    with decided have "?st = OPTIMAL \<or> ?st = FEASIBLE \<longrightarrow>
             (\<exists>r. generate_schedule sch now solve rnd = Inr r
                  \<and> schedule r = extract_schedule sch (shift_vars sch)
                                   (snd (solve (build_model sch))))"
      by blast
    then have "?st = OPTIMAL \<or> ?st = FEASIBLE \<longrightarrow>
             (\<exists>r. generate_schedule sch now solve rnd = Inr r \<and> schedule r = [])"
      by (simp add: vars extract_schedule_map extracted_keys_no_vars)
    with model show ?thesis by blast
  qed
  show ?thesis
    using classified fit minimum capacity empty by blast
qed

lemma sch_nobody_fields: "num_employees sch_nobody = 0"
  by (simp add: sch_nobody_def init_def)

lemma sch_huge_fields:
  "num_employees sch_huge = 1" "num_days sch_huge = 14" "num_locations sch_huge = 1"
  "num_shifts_per_day sch_huge = 2" "min_employees_per_shift sch_huge = 2"
  "min_shifts_per_employee_per_week sch_huge = 5" "max_shifts_per_employee_per_week sch_huge = 10"
  "get_or (capacity (locations sch_huge ! 0)) 20 = 2 ^ 63"
  by (simp_all add: sch_huge_def init_def two_shifts_def loc_with_def get_or_def)

lemma var_huge: "(0, 0, 0, 0) \<in> set (shift_vars sch_huge)"
  by (simp add: shift_vars_mem sch_huge_fields)
     (simp add: sch_huge_def init_def employee_has_required_skills_def emp_with_def loc_with_def
        get_or_def)

lemma generate_huge:
  "generate_schedule sch_huge now solve rnd = Inl (BoundOutOfRange (2 ^ 63))"
proof -
  have bad: "\<not> int64 (get_or (capacity (locations sch_huge ! 0)) 20)"
    by (simp add: sch_huge_fields int64_def)
  have "\<not> list_all (\<lambda>c. int64 (bound c)) (constraints (build_model sch_huge))"
    by (rule bad_bound_emitted [OF capacity_constraint_emitted [OF var_huge]]) (simp add: bad)
  from generate_schedule_refused [OF this, of now solve rnd] obtain c
    where c: "c \<in> set (constraints (build_model sch_huge))" "\<not> int64 (bound c)"
      and run: "generate_schedule sch_huge now solve rnd = Inl (BoundOutOfRange (bound c))"
    by blast
  from bound_constraints [OF c(1)] c(2) have "bound c = 2 ^ 63"
    by (auto simp: sch_huge_fields int64_def)
  with run show ?thesis by simp
qed

theorem generate_schedule_no_validation_witness:
  "num_employees sch_nobody = 0
   \<and> fst (solve_trivial (build_model sch_nobody)) = OPTIMAL
   \<and> build_model sch_nobody = \<lparr> variables = [], constraints = [], objective = None \<rparr>
   \<and> (\<exists>r. generate_schedule sch_nobody ''t'' solve_trivial round_half_even = Inr r
          \<and> schedule r = [])
   \<and> (0, 0, 0, 0) \<in> set (shift_vars sch_huge)
   \<and> \<not> int64 (get_or (capacity (locations sch_huge ! 0)) 20)
   \<and> (\<exists>n. \<not> int64 n
          \<and> generate_schedule sch_huge ''t'' solve_trivial round_half_even
              = Inl (BoundOutOfRange n))
   \<and> generate_schedule sch_huge ''t'' solve_trivial round_half_even
       = Inl (BoundOutOfRange (2 ^ 63))"
proof -
  have e: "num_employees sch_nobody = 0" by (rule sch_nobody_fields)
  have st: "fst (solve_trivial (build_model sch_nobody)) = OPTIMAL"
    by (simp add: solve_trivial_def)
  have bad: "\<not> int64 (get_or (capacity (locations sch_huge ! 0)) 20)"
    by (simp add: sch_huge_fields int64_def)
  from generate_schedule_no_validation [of sch_nobody "''t''" solve_trivial round_half_even] e st
  have nobody: "build_model sch_nobody = \<lparr> variables = [], constraints = [], objective = None \<rparr>
     \<and> (\<exists>r. generate_schedule sch_nobody ''t'' solve_trivial round_half_even = Inr r
            \<and> schedule r = [])"
    by blast
  from generate_schedule_no_validation [of sch_huge "''t''" solve_trivial round_half_even] var_huge bad
  have huge: "\<exists>n. \<not> int64 n
          \<and> generate_schedule sch_huge ''t'' solve_trivial round_half_even
              = Inl (BoundOutOfRange n)"
    by blast
  show ?thesis
    using e st nobody var_huge bad huge generate_huge [of "''t''" solve_trivial round_half_even]
    by blast
qed

text \<open>The claim fails on an empty list of employees.\<close>

theorem invalid_input_counterexample:
  "employees sch_nobody = []
   \<and> feasible (build_model sch_nobody) (snd (solve_trivial (build_model sch_nobody)))
   \<and> (\<forall>rnd. \<exists>r. generate_schedule sch_nobody ''t'' solve_trivial rnd = Inr r
          \<and> status r = ''SUCCESS'' \<and> schedule r = [])
   \<and> \<not> (\<exists>rnd err. generate_schedule sch_nobody ''t'' solve_trivial rnd = Inl err)"
proof -
  have vars: "shift_vars sch_nobody = []"
    by (rule shift_vars_empty) (simp add: sch_nobody_fields)
  have feas: "feasible (build_model sch_nobody) (snd (solve_trivial (build_model sch_nobody)))"
    by (simp add: build_model_no_vars [OF vars] feasible_def objective_ok_def)
  have run: "generate_schedule sch_nobody ''t'' solve_trivial rnd =
      Inr \<lparr> status = ''SUCCESS'', solver_status = ''OPTIMAL'', generated_at = ''t'',
            res_dates = dates sch_nobody, res_employees = [],
            res_locations = locations sch_nobody, res_shifts = shifts sch_nobody,
            schedule = [], res_statistics = calculate_statistics rnd [] \<rparr>" for rnd
    by (simp add: generate_schedule_def build_model_no_vars [OF vars] solve_trivial_def
        extract_schedule_map extracted_keys_no_vars)
       (simp add: sch_nobody_def init_def)
  show ?thesis
    using feas run by (simp add: sch_nobody_def init_def)
qed

section \<open>Advisor overrides\<close>

lemma apply_suggested_constraints_cases:
  "apply_suggested_constraints sch ai = sch
   \<or> (\<exists>analysis cs v. ai = Some analysis \<and> suggested_constraints analysis = Some cs
         \<and> map_of cs ''min_employees_per_shift'' = Some v
         \<and> apply_suggested_constraints sch ai = sch\<lparr>min_employees_per_shift := v\<rparr>)"
proof (cases ai)
  case None
  then show ?thesis by (simp add: apply_suggested_constraints_def)
next
  case (Some analysis)
  show ?thesis
  proof (cases "suggested_constraints analysis")
    case None
    with Some show ?thesis by (simp add: apply_suggested_constraints_def)
  next
    case (Some cs)
    show ?thesis
    proof (cases "map_of cs ''min_employees_per_shift''")
      case None
      then have "''min_employees_per_shift'' \<notin> fst ` set cs"
        by (simp add: map_of_eq_None_iff)
      with \<open>ai = Some analysis\<close> Some show ?thesis
        by (simp add: apply_suggested_constraints_def)
    next
      case (Some v)
      then have "''min_employees_per_shift'' \<in> fst ` set cs" "cs \<noteq> []"
        by (force dest: map_of_SomeD)+
      with Some \<open>ai = Some analysis\<close> \<open>suggested_constraints analysis = Some cs\<close>
      show ?thesis
        by (simp add: apply_suggested_constraints_def dict_get_def)
    qed
  qed
qed

lemma total_shifts_update:
  "total_shifts (sch\<lparr>min_employees_per_shift := m\<rparr>) vars e week = total_shifts sch vars e week"
  by (simp add: total_shifts_def week_days_def)

lemma constraint5_update:
  "constraint5 (sch\<lparr>min_employees_per_shift := m\<rparr>) vars = constraint5 sch vars"
  unfolding constraint5_def total_shifts_update by (simp cong: if_cong)

lemma shift_vars_update:
  "shift_vars (sch\<lparr>min_employees_per_shift := m\<rparr>) = shift_vars sch"
  by (simp add: shift_vars_def)

text \<open>
  C5 (as amended). Of an advisor bundle only \<^verbatim>\<open>min_employees_per_shift\<close> is merged into the
  scheduler: when the bundle holds the key its value becomes the coverage minimum, and
  otherwise, as when there is no bundle, the scheduler is unchanged. The weekly bounds and
  the constraints built from them are the same with and without the bundle.
\<close>

theorem only_min_employees_per_shift_merged:
  "min_shifts_per_employee_per_week (apply_suggested_constraints sch ai)
     = min_shifts_per_employee_per_week sch
   \<and> max_shifts_per_employee_per_week (apply_suggested_constraints sch ai)
     = max_shifts_per_employee_per_week sch
   \<and> constraint5 (apply_suggested_constraints sch ai) vars = constraint5 sch vars
   \<and> (\<exists>m. apply_suggested_constraints sch ai = sch\<lparr>min_employees_per_shift := m\<rparr>)
   \<and> apply_suggested_constraints sch None = sch
   \<and> (\<forall>analysis cs v. ai = Some analysis \<and> suggested_constraints analysis = Some cs
         \<and> map_of cs ''min_employees_per_shift'' = Some v
        \<longrightarrow> min_employees_per_shift (apply_suggested_constraints sch ai) = v)
   \<and> (\<forall>analysis cs. ai = Some analysis \<and> suggested_constraints analysis = Some cs
         \<and> map_of cs ''min_employees_per_shift'' = None
        \<longrightarrow> apply_suggested_constraints sch ai = sch)"
proof -
  obtain m where m: "apply_suggested_constraints sch ai = sch\<lparr>min_employees_per_shift := m\<rparr>"
  proof (cases "apply_suggested_constraints sch ai = sch")
    case True
    then have "apply_suggested_constraints sch ai
                 = sch\<lparr>min_employees_per_shift := min_employees_per_shift sch\<rparr>" by simp
    then show ?thesis by (rule that)
  next
    case False
    then show ?thesis using apply_suggested_constraints_cases [of sch ai] that by blast
  qed
  have c5: "constraint5 (sch\<lparr>min_employees_per_shift := m\<rparr>) vars = constraint5 sch vars"
    by (rule constraint5_update)
  have present: "min_employees_per_shift (apply_suggested_constraints sch ai) = v"
    if "ai = Some analysis" "suggested_constraints analysis = Some cs"
       "map_of cs ''min_employees_per_shift'' = Some v" for analysis cs v
  proof -
    from that(3) have "''min_employees_per_shift'' \<in> fst ` set cs" "cs \<noteq> []"
      by (force dest: map_of_SomeD)+
    with that show ?thesis by (simp add: apply_suggested_constraints_def dict_get_def)
  qed
  have absent: "apply_suggested_constraints sch ai = sch"
    if "ai = Some analysis" "suggested_constraints analysis = Some cs"
       "map_of cs ''min_employees_per_shift'' = None" for analysis cs
    using that by (simp add: apply_suggested_constraints_def map_of_eq_None_iff)
  have skipped: "apply_suggested_constraints sch None = sch"
    by (simp add: apply_suggested_constraints_def)
  show ?thesis
    using m c5 present absent skipped by (simp (no_asm_simp)) blast
qed

lemma apply_advice_all:
  "apply_suggested_constraints sch advice_all = sch\<lparr>min_employees_per_shift := 3\<rparr>"
  by (simp add: apply_suggested_constraints_def advice_all_def dict_get_def)

theorem only_min_employees_per_shift_merged_witness:
  "advice_all = Some \<lparr> suggested_constraints =
                   Some [(''min_employees_per_shift'', 3), (''max_shifts_per_week'', 7),
                         (''min_shifts_per_week'', 3)] \<rparr>
   \<and> min_employees_per_shift (apply_suggested_constraints sch_x advice_all) = 3
   \<and> min_shifts_per_employee_per_week (apply_suggested_constraints sch_x advice_all) = 5
   \<and> max_shifts_per_employee_per_week (apply_suggested_constraints sch_x advice_all) = 10"
proof -
  let ?cs = "[(''min_employees_per_shift'', 3), (''max_shifts_per_week'', 7),
              (''min_shifts_per_week'', 3 :: int)]"
  let ?analysis = "\<lparr> suggested_constraints = Some ?cs \<rparr>"
  have h: "advice_all = Some ?analysis \<and> suggested_constraints ?analysis = Some ?cs
           \<and> map_of ?cs ''min_employees_per_shift'' = Some 3"
    by (simp add: advice_all_def)
  note merged = only_min_employees_per_shift_merged [of sch_x advice_all "[]"]
  from merged have weekly:
    "min_shifts_per_employee_per_week (apply_suggested_constraints sch_x advice_all)
       = min_shifts_per_employee_per_week sch_x"
    "max_shifts_per_employee_per_week (apply_suggested_constraints sch_x advice_all)
       = max_shifts_per_employee_per_week sch_x"
    by (rule conjunct1, rule conjunct2 [THEN conjunct1])
  from merged have
    "\<forall>analysis cs v. advice_all = Some analysis \<and> suggested_constraints analysis = Some cs
         \<and> map_of cs ''min_employees_per_shift'' = Some v
        \<longrightarrow> min_employees_per_shift (apply_suggested_constraints sch_x advice_all) = v"
    by (elim conjE)
  then have "advice_all = Some ?analysis \<and> suggested_constraints ?analysis = Some ?cs
         \<and> map_of ?cs ''min_employees_per_shift'' = Some 3
        \<longrightarrow> min_employees_per_shift (apply_suggested_constraints sch_x advice_all) = 3"
    by (elim allE)
  with h have "min_employees_per_shift (apply_suggested_constraints sch_x advice_all) = 3"
    by (rule_tac mp)
  with weekly h show ?thesis by (simp add: sch_x_fields)
qed

text \<open>The claim fails on a bundle that overrides the weekly bounds.\<close>

theorem weekly_override_counterexample:
  "map_of (the (suggested_constraints (the advice_all))) ''min_shifts_per_week'' = Some 3
   \<and> map_of (the (suggested_constraints (the advice_all))) ''max_shifts_per_week'' = Some 7
   \<and> min_shifts_per_employee_per_week (apply_suggested_constraints sch_x advice_all) = 5
   \<and> max_shifts_per_employee_per_week (apply_suggested_constraints sch_x advice_all) = 10
   \<and> constraint5 (apply_suggested_constraints sch_x advice_all) (shift_vars sch_x)
       = constraint5 sch_x (shift_vars sch_x)
   \<and> AddGe (total_shifts sch_x (shift_vars sch_x) 0 0) 5
       \<in> set (constraints (build_model (apply_suggested_constraints sch_x advice_all)))"
proof -
  let ?sch = "apply_suggested_constraints sch_x advice_all"
  have fields: "min_shifts_per_employee_per_week ?sch = 5" "max_shifts_per_employee_per_week ?sch = 10"
    by (simp_all add: apply_advice_all sch_x_fields)
  have c5: "constraint5 ?sch (shift_vars sch_x) = constraint5 sch_x (shift_vars sch_x)"
    by (simp add: apply_advice_all constraint5_update)
  have "total_shifts sch_x (shift_vars sch_x) 0 0 \<noteq> []"
    by (simp add: total_shifts_x upt_rec)
  then have "AddGe (total_shifts sch_x (shift_vars sch_x) 0 0) 5 \<in> set (constraint5 sch_x (shift_vars sch_x))"
    unfolding constraint5_def
    by (simp add: sch_x_fields) (intro bexI [of _ 0], simp_all)
  then have "AddGe (total_shifts sch_x (shift_vars sch_x) 0 0) 5 \<in> set (constraints (build_model ?sch))"
    using c5 by (simp add: build_model_def Let_def apply_advice_all shift_vars_update)
  then show ?thesis
    using fields c5 by (simp add: advice_all_def)
qed

section \<open>Counting dictionaries\<close>

lemma sum_count_into: "sum_list (map snd (count_into k d)) = sum_list (map snd d) + 1"
proof (induction d)
  case Nil
  then show ?case by (simp add: count_into_def dict_get_def)
next
  case (Cons p d)
  obtain k' v where p: "p = (k', v)" by (cases p) auto
  show ?case
  proof (cases "k' = k")
    case True
    then show ?thesis by (simp add: p count_into_def dict_get_def)
  next
    case False
    have "count_into k (p # d) = p # count_into k d"
      using False by (simp add: p count_into_def dict_get_def)
    then show ?thesis using Cons.IH by simp
  qed
qed

lemma sum_fold_count_into:
  "sum_list (map snd (fold (\<lambda>a. count_into (f a)) xs d)) = sum_list (map snd d) + length xs"
proof (induction xs arbitrary: d)
  case Nil
  then show ?case by simp
next
  case (Cons x xs)
  then show ?case by (simp add: sum_count_into)
qed

lemma employee_loop_fst:
  "fst (fold employee_loop_body xs st) = fold (\<lambda>a. count_into (employee_id a)) xs (fst st)"
proof (induction xs arbitrary: st)
  case Nil
  then show ?case by simp
next
  case (Cons x xs)
  obtain es el est where st: "st = (es, el, est)" by (cases st) auto
  have "fst (employee_loop_body x st) = count_into (employee_id x) (fst st)"
    by (simp add: st employee_loop_body_def Let_def)
  then show ?case using Cons.IH [of "employee_loop_body x st"] by simp
qed

lemma employee_shifts_fold:
  "employee_shifts sched = fold (\<lambda>a. count_into (employee_id a)) sched []"
  by (simp add: employee_shifts_def employee_loop_def employee_loop_fst)

section \<open>What the counting dictionaries hold\<close>

lemma map_of_count_into:
  "map_of (count_into k' d) k = (if k = k' then Some (dict_get d k 0 + 1) else map_of d k)"
  by (simp add: count_into_def update_conv')

lemma distinct_count_into:
  "distinct (map fst d) \<Longrightarrow> distinct (map fst (count_into k d))"
  by (simp add: count_into_def distinct_update)

lemma fold_count_into_lookup:
  "map_of (fold (\<lambda>a. count_into (f a)) xs d) k =
     (if k \<in> f ` set xs
      then Some (dict_get d k 0 + length (filter (\<lambda>a. f a = k) xs))
      else map_of d k)"
proof (induction xs arbitrary: d)
  case Nil
  then show ?case by simp
next
  case (Cons x xs)
  have get: "dict_get (count_into (f x) d) k 0 = (if k = f x then dict_get d k 0 + 1 else dict_get d k 0)"
    by (simp add: dict_get_def map_of_count_into)
  show ?case
    using Cons.IH [of "count_into (f x) d"] get
    by (auto simp: map_of_count_into filter_empty_conv image_iff)
qed

lemma fold_count_into_distinct:
  "distinct (map fst d) \<Longrightarrow> distinct (map fst (fold (\<lambda>a. count_into (f a)) xs d))"
  by (induction xs arbitrary: d) (simp_all add: distinct_count_into)

lemma count_dict_lookup:
  "map_of (fold (\<lambda>a. count_into (f a)) xs []) k =
     (if k \<in> f ` set xs then Some (length (filter (\<lambda>a. f a = k) xs)) else None)"
  by (simp add: fold_count_into_lookup dict_get_def)

lemma count_dict_distinct: "distinct (map fst (fold (\<lambda>a. count_into (f a)) xs []))"
  by (rule fold_count_into_distinct) simp

lemma count_dict_keys: "fst ` set (fold (\<lambda>a. count_into (f a)) xs []) = f ` set xs"
proof -
  have "k \<in> fst ` set (fold (\<lambda>a. count_into (f a)) xs []) \<longleftrightarrow> k \<in> f ` set xs" for k
    using count_dict_lookup [of f xs k]
    by (metis map_of_eq_None_iff option.distinct(1))
  then show ?thesis by blast
qed

text \<open>A sum over the values of a dictionary is a sum over its keys.\<close>

lemma dict_value_lookup:
  assumes "distinct (map fst d)" "p \<in> set d"
  shows "the (map_of d (fst p)) = snd p"
  using assms by (cases p) simp

lemma sum_list_dict_values:
  assumes "distinct (map fst d)"
  shows "sum_list (map (g \<circ> snd) d) = (\<Sum>k\<in>fst ` set d. g (the (map_of d k)))"
proof -
  have "map (g \<circ> snd) d = map ((\<lambda>k. g (the (map_of d k))) \<circ> fst) d"
    using dict_value_lookup [OF assms] by (simp add: map_eq_conv)
  then have "sum_list (map (g \<circ> snd) d) = sum_list (map (\<lambda>k. g (the (map_of d k))) (map fst d))"
    by (simp only: map_map)
  also have "\<dots> = (\<Sum>k\<in>set (map fst d). g (the (map_of d k)))"
    using assms by (rule sum_list_distinct_conv_sum_set)
  finally show ?thesis by simp
qed

lemma set_dict_values:
  assumes "distinct (map fst d)"
  shows "snd ` set d = (\<lambda>k. the (map_of d k)) ` fst ` set d"
  using dict_value_lookup [OF assms] by (force simp: image_iff)

lemma length_dict: "distinct (map fst d) \<Longrightarrow> length d = card (fst ` set d)"
  using distinct_card [of "map fst d"] by simp

lemma count_dict_positive:
  assumes "p \<in> set (fold (\<lambda>a. count_into (f a)) xs [])"
  shows "0 < snd p"
proof -
  let ?d = "fold (\<lambda>a. count_into (f a)) xs []"
  have key: "fst p \<in> f ` set xs"
    using assms count_dict_keys [of f xs] by (metis imageI)
  have "snd p = the (map_of ?d (fst p))"
    using dict_value_lookup [OF count_dict_distinct assms] by simp
  also have "\<dots> = length (filter (\<lambda>a. f a = fst p) xs)"
    using key by (simp add: count_dict_lookup)
  finally show ?thesis
    using key by (auto simp: filter_empty_conv)
qed

section \<open>Rendering the keys of a dictionary\<close>

lemma update_fresh: "k \<notin> fst ` set al \<Longrightarrow> AList.update k v al = al @ [(k, v)]"
  by (induction al) auto

lemma fold_rekey_fresh:
  assumes "distinct (map (f \<circ> fst) d)" "f ` fst ` set d \<inter> fst ` set acc = {}"
  shows "fold (\<lambda>(k, v). AList.update (f k) v) d acc = acc @ map (\<lambda>(k, v). (f k, v)) d"
  using assms
proof (induction d arbitrary: acc)
  case Nil
  then show ?case by simp
next
  case (Cons p d)
  obtain k v where p: "p = (k, v)" by (cases p) auto
  have fresh: "f k \<notin> fst ` set acc" using Cons.prems(2) by (auto simp: p)
  have "fold (\<lambda>(k, v). AList.update (f k) v) d (acc @ [(f k, v)])
          = (acc @ [(f k, v)]) @ map (\<lambda>(k, v). (f k, v)) d"
    using Cons.prems by (intro Cons.IH) (auto simp: p)
  then show ?case by (simp add: p update_fresh [OF fresh])
qed

lemma rekey_inj:
  assumes "distinct (map fst d)" "inj_on f (fst ` set d)"
  shows "rekey f d = map (\<lambda>(k, v). (f k, v)) d"
proof -
  have "distinct (map (f \<circ> fst) d)"
    using assms by (simp add: distinct_map flip: map_map)
  then show ?thesis
    unfolding rekey_def using fold_rekey_fresh [of f d "[]"] by simp
qed

lemma sum_update_le:
  fixes al :: "('k \<times> nat) list"
  shows "sum_list (map snd (AList.update k v al)) \<le> sum_list (map snd al) + v"
  by (induction al) auto

lemma sum_update_less:
  fixes al :: "('k \<times> nat) list"
  assumes "k \<in> fst ` set al" "\<forall>p\<in>set al. 0 < snd p"
  shows "sum_list (map snd (AList.update k v al)) < sum_list (map snd al) + v"
  using assms by (induction al) auto

lemma update_positive:
  fixes al :: "('k \<times> nat) list"
  assumes "\<forall>p\<in>set al. 0 < snd p" "0 < v"
  shows "\<forall>p\<in>set (AList.update k v al). 0 < snd p"
  using assms by (induction al) auto

lemma sum_fold_rekey_le:
  fixes d :: "('k \<times> nat) list"
  shows "sum_list (map snd (fold (\<lambda>(k, v). AList.update (f k) v) d acc))
           \<le> sum_list (map snd acc) + sum_list (map snd d)"
proof (induction d arbitrary: acc)
  case Nil
  then show ?case by simp
next
  case (Cons p d)
  obtain k v where p: "p = (k, v)" by (cases p) auto
  have "sum_list (map snd (fold (\<lambda>(k, v). AList.update (f k) v) d (AList.update (f k) v acc)))
          \<le> sum_list (map snd (AList.update (f k) v acc)) + sum_list (map snd d)"
    by (rule Cons.IH)
  also have "\<dots> \<le> (sum_list (map snd acc) + v) + sum_list (map snd d)"
    using sum_update_le [of "f k" v acc] by simp
  finally show ?case by (simp add: p)
qed

lemma sum_fold_rekey_less:
  fixes d :: "('k \<times> nat) list"
  assumes "\<forall>p\<in>set acc. 0 < snd p" "\<forall>p\<in>set d. 0 < snd p" "distinct (map fst d)"
    and "\<not> inj_on f (fst ` set d) \<or> f ` fst ` set d \<inter> fst ` set acc \<noteq> {}"
  shows "sum_list (map snd (fold (\<lambda>(k, v). AList.update (f k) v) d acc))
           < sum_list (map snd acc) + sum_list (map snd d)"
  using assms
proof (induction d arbitrary: acc)
  case Nil
  then show ?case by simp
next
  case (Cons p d)
  obtain k v where p: "p = (k, v)" by (cases p) auto
  let ?acc = "AList.update (f k) v acc"
  have v: "0 < v" using Cons.prems(2) by (simp add: p)
  have positive: "\<forall>p\<in>set ?acc. 0 < snd p"
    using Cons.prems(1) v by (rule update_positive)
  show ?case
  proof (cases "f k \<in> fst ` set acc")
    case True
    have "sum_list (map snd (fold (\<lambda>(k, v). AList.update (f k) v) d ?acc))
            \<le> sum_list (map snd ?acc) + sum_list (map snd d)"
      by (rule sum_fold_rekey_le)
    also have "\<dots> < (sum_list (map snd acc) + v) + sum_list (map snd d)"
      using sum_update_less [OF True Cons.prems(1), of v] by simp
    finally show ?thesis by (simp add: p)
  next
    case False
    have keys: "fst ` set ?acc = insert (f k) (fst ` set acc)"
      by (simp add: dom_update)
    have sum: "sum_list (map snd ?acc) = sum_list (map snd acc) + v"
      by (simp add: update_fresh [OF False])
    have fresh: "k \<notin> fst ` set d"
      using Cons.prems(3) by (simp add: p image_iff)
    have "\<not> inj_on f (fst ` set d) \<or> f ` fst ` set d \<inter> fst ` set ?acc \<noteq> {}"
    proof (cases "f k \<in> f ` fst ` set d")
      case True
      then show ?thesis by (auto simp: keys)
    next
      case not_hit: False
      from Cons.prems(4) consider "\<not> inj_on f (fst ` set (p # d))"
        | "f ` fst ` set (p # d) \<inter> fst ` set acc \<noteq> {}" by blast
      then show ?thesis
      proof cases
        case 1
        then have "\<not> inj_on f (fst ` set d)"
          using not_hit fresh by (auto simp: p inj_on_insert)
        then show ?thesis by simp
      next
        case 2
        then have "f ` fst ` set d \<inter> fst ` set acc \<noteq> {}"
          using False by (auto simp: p)
        then show ?thesis by (auto simp: keys)
      qed
    qed
    from Cons.IH [OF positive _ _ this] Cons.prems(2,3)
    have "sum_list (map snd (fold (\<lambda>(k, v). AList.update (f k) v) d ?acc))
            < sum_list (map snd ?acc) + sum_list (map snd d)"
      by simp
    then show ?thesis by (simp add: p sum)
  qed
qed

lemma sum_rekey:
  fixes d :: "('k \<times> nat) list"
  assumes "distinct (map fst d)" "\<forall>p\<in>set d. 0 < snd p"
  shows "sum_list (map snd (rekey f d)) \<le> sum_list (map snd d)"
    and "sum_list (map snd (rekey f d)) = sum_list (map snd d) \<longleftrightarrow> inj_on f (fst ` set d)"
proof -
  show "sum_list (map snd (rekey f d)) \<le> sum_list (map snd d)"
    unfolding rekey_def using sum_fold_rekey_le [of f d "[]"] by simp
  show "sum_list (map snd (rekey f d)) = sum_list (map snd d) \<longleftrightarrow> inj_on f (fst ` set d)"
  proof
    assume "inj_on f (fst ` set d)"
    from rekey_inj [OF assms(1) this]
    show "sum_list (map snd (rekey f d)) = sum_list (map snd d)"
      by (simp add: comp_def case_prod_unfold)
  next
    assume eq: "sum_list (map snd (rekey f d)) = sum_list (map snd d)"
    show "inj_on f (fst ` set d)"
    proof (rule ccontr)
      assume "\<not> inj_on f (fst ` set d)"
      with sum_fold_rekey_less [of "[]" d f] assms
      have "sum_list (map snd (rekey f d)) < sum_list (map snd d)"
        by (simp add: rekey_def)
      with eq show False by simp
    qed
  qed
qed

lemma sum_rekey_counts:
  "sum_list (map snd (rekey g (fold (\<lambda>a. count_into (f a)) xs []))) \<le> length xs"
  "sum_list (map snd (rekey g (fold (\<lambda>a. count_into (f a)) xs []))) = length xs
     \<longleftrightarrow> inj_on g (f ` set xs)"
proof -
  let ?d = "fold (\<lambda>a. count_into (f a)) xs []"
  have pos: "\<forall>p\<in>set ?d. 0 < snd p"
    using count_dict_positive [of _ f xs] by blast
  have total: "sum_list (map snd ?d) = length xs"
    by (simp add: sum_fold_count_into)
  show "sum_list (map snd (rekey g ?d)) \<le> length xs"
    using sum_rekey(1) [OF count_dict_distinct pos, of g] by (simp add: total)
  show "sum_list (map snd (rekey g ?d)) = length xs \<longleftrightarrow> inj_on g (f ` set xs)"
    using sum_rekey(2) [OF count_dict_distinct pos, of g] by (simp add: total count_dict_keys)
qed

section \<open>The groupings of the statistics\<close>

text \<open>
  C10 (as amended). \<^verbatim>\<open>total_assignments\<close> is the length of the schedule list, and the
  counts per day add up to it. The counts per employee, per location and per shift type
  are written under the rendering \<^verbatim>\<open>str\<close> of the identifier: they never add up to more
  than \<^verbatim>\<open>total_assignments\<close>, and they add up to it exactly when no two different
  identifiers of the schedule have the same rendering.
\<close>

theorem statistics_groupings_sum:
  "total_assignments (calculate_statistics rnd sched) = length sched
   \<and> sum_list (map snd (shifts_per_day (calculate_statistics rnd sched)))
       = total_assignments (calculate_statistics rnd sched)
   \<and> sum_list (map snd (shifts_per_employee (calculate_statistics rnd sched)))
       \<le> total_assignments (calculate_statistics rnd sched)
   \<and> sum_list (map snd (shifts_per_location (calculate_statistics rnd sched)))
       \<le> total_assignments (calculate_statistics rnd sched)
   \<and> sum_list (map snd (shifts_per_type (calculate_statistics rnd sched)))
       \<le> total_assignments (calculate_statistics rnd sched)
   \<and> (sum_list (map snd (shifts_per_employee (calculate_statistics rnd sched)))
         = total_assignments (calculate_statistics rnd sched)
       \<longleftrightarrow> inj_on str (employee_id ` set sched))
   \<and> (sum_list (map snd (shifts_per_location (calculate_statistics rnd sched)))
         = total_assignments (calculate_statistics rnd sched)
       \<longleftrightarrow> inj_on str (location_id ` set sched))
   \<and> (sum_list (map snd (shifts_per_type (calculate_statistics rnd sched)))
         = total_assignments (calculate_statistics rnd sched)
       \<longleftrightarrow> inj_on str (shift_id ` set sched))"
proof -
  have total: "total_assignments (calculate_statistics rnd sched) = length sched"
    by (simp add: calculate_statistics_def)
  have day: "sum_list (map snd (shifts_per_day (calculate_statistics rnd sched))) = length sched"
    by (simp add: calculate_statistics_def day_shifts_def sum_fold_count_into)
  have emp: "shifts_per_employee (calculate_statistics rnd sched)
               = rekey str (fold (\<lambda>a. count_into (employee_id a)) sched [])"
    by (simp add: calculate_statistics_def employee_shifts_fold)
  have loc: "shifts_per_location (calculate_statistics rnd sched)
               = rekey str (fold (\<lambda>a. count_into (location_id a)) sched [])"
    by (simp add: calculate_statistics_def location_shifts_def)
  have type: "shifts_per_type (calculate_statistics rnd sched)
               = rekey str (fold (\<lambda>a. count_into (shift_id a)) sched [])"
    by (simp add: calculate_statistics_def shift_type_counts_def)
  show ?thesis
    unfolding total day emp loc type
    using sum_rekey_counts [of str employee_id sched] sum_rekey_counts [of str location_id sched]
      sum_rekey_counts [of str shift_id sched]
    by simp
qed

lemma str_IdStr_inj: "inj_on str (IdStr ` S)"
  by (auto simp: inj_on_def)

theorem statistics_groupings_sum_witness:
  "inj_on str (employee_id ` set sched_even)
   \<and> length sched_even = 4
   \<and> sum_list (map snd (shifts_per_employee (calculate_statistics round_half_even sched_even))) = 4
   \<and> sum_list (map snd (shifts_per_location (calculate_statistics round_half_even sched_even))) = 4
   \<and> sum_list (map snd (shifts_per_day (calculate_statistics round_half_even sched_even))) = 4
   \<and> sum_list (map snd (shifts_per_type (calculate_statistics round_half_even sched_even))) = 4"
proof -
  have len: "length sched_even = 4" by (simp add: sched_even_def)
  have "employee_id ` set sched_even = IdStr ` {''E1'', ''E2''}"
       "location_id ` set sched_even = IdStr ` {''L1''}"
       "shift_id ` set sched_even = IdStr ` {''morning'', ''evening''}"
    by (auto simp: sched_even_def assign_def)
  then have inj: "inj_on str (employee_id ` set sched_even)"
    "inj_on str (location_id ` set sched_even)" "inj_on str (shift_id ` set sched_even)"
    by (simp_all only: str_IdStr_inj)
  show ?thesis
    using statistics_groupings_sum [of round_half_even sched_even] inj len by simp
qed

text \<open>
  The claim as stated fails on a schedule in which one employee has the identifier 1 and
  another the identifier \<^verbatim>\<open>'1'\<close>: the two are counted apart, both counts are written under
  the key \<^verbatim>\<open>'1'\<close>, and the grouping per employee adds up to 1 where the schedule has 2
  records.
\<close>

lemma str_int_one: "str_int 1 = ''1''"
  by (simp add: str_int_def str_nat.simps digit_def)

theorem mixed_identifiers_counterexample:
  "employee_id ` set sched_mixed = {IdInt 1, IdStr ''1''}
   \<and> str (IdInt 1) = str (IdStr ''1'')
   \<and> employee_shifts sched_mixed = [(IdInt 1, 1), (IdStr ''1'', 1)]
   \<and> shifts_per_employee (calculate_statistics round_half_even sched_mixed) = [(''1'', 1)]
   \<and> total_assignments (calculate_statistics round_half_even sched_mixed) = 2
   \<and> length sched_mixed = 2
   \<and> sum_list (map snd (shifts_per_employee (calculate_statistics round_half_even sched_mixed)))
       \<noteq> total_assignments (calculate_statistics round_half_even sched_mixed)"
proof -
  have counts: "employee_shifts sched_mixed = [(IdInt 1, 1), (IdStr ''1'', 1)]"
    by (simp add: employee_shifts_fold sched_mixed_def assign_def count_into_def dict_get_def)
  have "shifts_per_employee (calculate_statistics round_half_even sched_mixed) = [(''1'', 1)]"
    by (simp add: calculate_statistics_def counts rekey_def str_int_one)
  moreover have "employee_id ` set sched_mixed = {IdInt 1, IdStr ''1''}"
    by (auto simp: sched_mixed_def assign_def)
  moreover have "length sched_mixed = 2" by (simp add: sched_mixed_def)
  moreover from this
  have "total_assignments (calculate_statistics round_half_even sched_mixed) = 2"
    by (simp add: calculate_statistics_def)
  ultimately show ?thesis
    by (simp add: counts str_int_one)
qed

section \<open>Per-employee counts\<close>

lemma employee_shifts_keys: "fst ` set (employee_shifts sched) = scheduled_employees sched"
  by (simp add: employee_shifts_fold count_dict_keys scheduled_employees_def)

lemma employee_shifts_distinct: "distinct (map fst (employee_shifts sched))"
  by (simp add: employee_shifts_fold count_dict_distinct)

lemma employee_shifts_lookup:
  "emp \<in> scheduled_employees sched \<Longrightarrow> the (map_of (employee_shifts sched) emp) = cnt_e sched emp"
  by (simp add: employee_shifts_fold count_dict_lookup scheduled_employees_def cnt_e_def)

lemma shift_values_sum:
  "sum_list (map g (shift_values sched)) = (\<Sum>emp\<in>scheduled_employees sched. g (cnt_e sched emp))"
  unfolding shift_values_def map_map
  by (simp add: sum_list_dict_values [OF employee_shifts_distinct] employee_shifts_keys
      employee_shifts_lookup)

lemma shift_values_set: "set (shift_values sched) = cnt_e sched ` scheduled_employees sched"
  unfolding shift_values_def set_map
  by (simp add: set_dict_values [OF employee_shifts_distinct] employee_shifts_keys
      employee_shifts_lookup)

lemma shift_values_length: "length (shift_values sched) = card (scheduled_employees sched)"
  unfolding shift_values_def
  using length_dict [OF employee_shifts_distinct, of sched] by (simp add: employee_shifts_keys)

lemma shift_values_empty: "shift_values sched = [] \<longleftrightarrow> sched = []"
  using shift_values_set [of sched] by (auto simp: scheduled_employees_def)

lemma employee_shifts_empty: "employee_shifts sched = [] \<longleftrightarrow> sched = []"
  using shift_values_empty [of sched] by (simp add: shift_values_def)

lemma cnt_e_positive: "emp \<in> scheduled_employees sched \<Longrightarrow> 0 < cnt_e sched emp"
  by (auto simp: scheduled_employees_def cnt_e_def filter_empty_conv)

lemma avg_shifts_spec: "avg_shifts sched = spec_avg sched"
proof (cases "sched = []")
  case True
  then show ?thesis
    by (simp add: avg_shifts_def shift_values_empty spec_avg_def scheduled_employees_def)
next
  case False
  have "real (sum_list (shift_values sched)) = sum_list (map real (shift_values sched))"
    by (simp add: sum_list_of_nat)
  then show ?thesis
    using False shift_values_sum [of real sched]
    by (simp add: avg_shifts_def shift_values_empty spec_avg_def shift_values_length)
qed

lemma variance_spec: "variance sched = spec_variance sched"
  using shift_values_sum [of "\<lambda>x. (real x - spec_avg sched) ^ 2" sched]
  by (simp add: variance_def spec_variance_def avg_shifts_spec shift_values_length)

section \<open>The statistics of the example with an employee without skills\<close>

lemma extracted_keys_y:
  "extracted_keys sch_y (shift_vars sch_y) val_y =
     concat (map (\<lambda>e. map (\<lambda>d. (e, d, 0, e div 2)) [0..<14]) [0..<4])"
  unfolding extracted_keys_def sch_y_fields
  by (simp add: mem_y val_y_def upt_0_5 upt_0_2 upt_0_14 upt_0_4)

lemma employee_shifts_y:
  "employee_shifts (extract_schedule sch_y (shift_vars sch_y) val_y) =
     [(IdStr ''E1'', 14), (IdStr ''E2'', 14), (IdStr ''E3'', 14), (IdStr ''E4'', 14)]"
  unfolding extract_schedule_map extracted_keys_y employee_shifts_fold
  by (simp add: upt_0_14 upt_0_4 make_assignment_def employees_y emp_with_def
      count_into_def dict_get_def eval_nat_numeral)

lemma cnt_e_idle_y:
  "cnt_e (extract_schedule sch_y (shift_vars sch_y) val_y) (IdStr ''E5'') = 0"
  unfolding extract_schedule_map extracted_keys_y cnt_e_def
  by (simp add: upt_0_14 upt_0_4 make_assignment_def employees_y emp_with_def)

section \<open>Rounding\<close>

lemma round_multiple:
  assumes "round_contract rnd"
  shows "\<exists>k::int. rnd x n = of_int k / 10 ^ n"
  using assms unfolding round_contract_def by blast

lemma round_near:
  assumes "round_contract rnd"
  shows "\<bar>rnd x n - x\<bar> \<le> 1 / (2 * 10 ^ n)"
  using assms unfolding round_contract_def by blast

lemma round_between:
  assumes "round_contract rnd" "of_int a / 10 ^ n \<le> x" "x \<le> of_int b / 10 ^ n"
  shows "of_int a / 10 ^ n \<le> rnd x n \<and> rnd x n \<le> of_int b / 10 ^ n"
proof -
  obtain k :: int where k: "rnd x n = of_int k / 10 ^ n"
    using round_multiple [OF assms(1)] by blast
  have near: "\<bar>rnd x n - x\<bar> \<le> 1 / (2 * 10 ^ n)"
    using assms(1) by (rule round_near)
  have pos: "(0::real) < 10 ^ n" by simp
  have "of_int a / 10 ^ n - 1 / (2 * 10 ^ n) \<le> of_int k / (10 ^ n :: real)"
    using near assms(2) unfolding k by linarith
  then have "(of_int a - 1 / 2) / 10 ^ n \<le> of_int k / (10 ^ n :: real)"
    by (simp add: diff_divide_distrib)
  then have "of_int a - 1 / 2 \<le> (of_int k :: real)"
    using pos by (simp add: divide_le_cancel)
  then have lower: "a \<le> k" by linarith
  have "of_int k / (10 ^ n :: real) \<le> of_int b / 10 ^ n + 1 / (2 * 10 ^ n)"
    using near assms(3) unfolding k by linarith
  then have "of_int k / (10 ^ n :: real) \<le> (of_int b + 1 / 2) / 10 ^ n"
    by (simp add: add_divide_distrib)
  then have "(of_int k :: real) \<le> of_int b + 1 / 2"
    using pos by (simp add: divide_le_cancel)
  then have upper: "k \<le> b" by linarith
  have "(of_int a :: real) \<le> of_int k" "(of_int k :: real) \<le> of_int b"
    using lower upper by simp_all
  then show ?thesis
    unfolding k by (simp add: divide_right_mono)
qed

lemma round_exact:
  assumes "round_contract rnd"
  shows "rnd (of_int a / 10 ^ n) n = of_int a / 10 ^ n"
  using round_between [OF assms, of a n "of_int a / 10 ^ n" a] by simp

lemma round_unique:
  assumes "round_contract rnd"
    and "(of_int a - 1 / 2) / 10 ^ n < x" "x < (of_int a + 1 / 2) / 10 ^ n"
  shows "rnd x n = of_int a / 10 ^ n"
proof -
  obtain k :: int where k: "rnd x n = of_int k / 10 ^ n"
    using round_multiple [OF assms(1)] by blast
  have near: "\<bar>of_int k / 10 ^ n - x\<bar> \<le> 1 / (2 * 10 ^ n)"
    using round_near [OF assms(1), of x n] by (simp add: k)
  have pos: "(0::real) < 10 ^ n" by simp
  have "of_int k / (10 ^ n :: real) < (of_int a + 1 / 2) / 10 ^ n + 1 / (2 * 10 ^ n)"
    using near assms(3) by linarith
  then have "of_int k / (10 ^ n :: real) < (of_int a + 1) / 10 ^ n"
    by (simp add: add_divide_distrib)
  then have "(of_int k :: real) < of_int a + 1"
    using pos by (simp add: divide_less_cancel)
  then have upper: "k \<le> a" by linarith
  have "(of_int a - 1 / 2) / 10 ^ n - 1 / (2 * 10 ^ n) < of_int k / (10 ^ n :: real)"
    using near assms(2) by linarith
  then have "(of_int a - 1) / 10 ^ n < of_int k / (10 ^ n :: real)"
    by (simp add: diff_divide_distrib)
  then have "(of_int a :: real) - 1 < of_int k"
    using pos by (simp add: divide_less_cancel)
  then have "a \<le> k" by linarith
  with upper show ?thesis by (simp add: k)
qed

lemma round_percent:
  assumes "round_contract rnd" "0 \<le> x" "x \<le> 100"
  shows "0 \<le> rnd x 2 \<and> rnd x 2 \<le> 100"
  using round_between [OF assms(1), of 0 2 x 10000] assms(2,3) by simp

lemma round_0:
  assumes "round_contract rnd"
  shows "rnd 0 n = 0"
  using round_exact [OF assms, of 0 n] by simp

lemma round_100:
  assumes "round_contract rnd"
  shows "rnd 100 2 = 100"
  using round_exact [OF assms, of 10000 2] by simp

lemma round_two_decimals:
  assumes "round_contract rnd"
  shows "\<bar>rnd x 2 - x\<bar> \<le> 1 / 200" and "\<exists>k::int. rnd x 2 = of_int k / 100"
  using round_near [OF assms, of x 2] round_multiple [OF assms, of x 2] by simp_all

lemma round_half_even_contract: "round_contract round_half_even"
  unfolding round_contract_def
proof (intro allI conjI)
  fix x :: real and n :: nat
  define y where "y = x * 10 ^ n"
  define f where "f = \<lfloor>y\<rfloor>"
  define m where "m = (if y - of_int f < 1 / 2 then f
                       else if y - of_int f > 1 / 2 then f + 1
                       else if even f then f else f + 1)"
  have round: "round_half_even x n = of_int m / 10 ^ n"
    by (simp add: round_half_even_def Let_def m_def f_def y_def)
  then show "\<exists>k::int. round_half_even x n = of_int k / 10 ^ n" by blast
  have "of_int f \<le> y" "y < of_int f + 1"
    by (simp_all add: f_def)
  then have half: "\<bar>of_int m - y\<bar> \<le> 1 / 2"
    by (auto simp: m_def)
  have "round_half_even x n - x = (of_int m - y) / 10 ^ n"
    by (simp add: round y_def diff_divide_distrib)
  then have "\<bar>round_half_even x n - x\<bar> = \<bar>of_int m - y\<bar> / 10 ^ n"
    by simp
  also have "\<dots> \<le> (1 / 2) / 10 ^ n"
    using half by (rule divide_right_mono) simp
  finally show "\<bar>round_half_even x n - x\<bar> \<le> 1 / (2 * 10 ^ n)" by simp
qed

section \<open>Minimum, maximum, mean and variance of the counts\<close>

lemma min_max_shifts:
  assumes "sched \<noteq> []"
  shows "min_shifts_per_employee (calculate_statistics rnd sched)
           = Min (cnt_e sched ` scheduled_employees sched)"
    and "max_shifts_per_employee (calculate_statistics rnd sched)
           = Max (cnt_e sched ` scheduled_employees sched)"
  using assms shift_values_set [of sched]
  by (simp_all add: calculate_statistics_def employee_shifts_empty shift_values_def)

text \<open>
  C7 (as amended). The statistics are taken over the employees that have at least one
  assignment. For a schedule that is not empty, \<^verbatim>\<open>min_shifts_per_employee\<close> and
  \<^verbatim>\<open>max_shifts_per_employee\<close> are the least and the greatest \<open>cnt_e\<close> of those employees,
  \<^verbatim>\<open>avg_shifts_per_employee\<close> is their mean and the variance is the mean of
  \<open>(cnt_e - avg)\<^sup>2\<close> over them; the reported variance is a multiple of 0.01 at most 0.005
  away from it. For the empty schedule all four are 0.
\<close>

theorem fairness_statistics_over_scheduled:
  assumes "round_contract rnd"
  shows "(sched \<noteq> [] \<longrightarrow>
      min_shifts_per_employee (calculate_statistics rnd sched)
        = Min (cnt_e sched ` scheduled_employees sched)
      \<and> max_shifts_per_employee (calculate_statistics rnd sched)
        = Max (cnt_e sched ` scheduled_employees sched)
      \<and> avg_shifts_per_employee (calculate_statistics rnd sched) = spec_avg sched
      \<and> variance sched = spec_variance sched
      \<and> \<bar>fairness_variance (fairness (stat_optimization_summary (calculate_statistics rnd sched)))
          - spec_variance sched\<bar> \<le> 1 / 200
      \<and> (\<exists>k::int. fairness_variance
                     (fairness (stat_optimization_summary (calculate_statistics rnd sched)))
                   = of_int k / 100))
   \<and> (sched = [] \<longrightarrow>
      min_shifts_per_employee (calculate_statistics rnd sched) = 0
      \<and> max_shifts_per_employee (calculate_statistics rnd sched) = 0
      \<and> avg_shifts_per_employee (calculate_statistics rnd sched) = 0
      \<and> fairness_variance (fairness (stat_optimization_summary (calculate_statistics rnd sched)))
          = 0)"
proof -
  have avg: "avg_shifts_per_employee (calculate_statistics rnd sched) = spec_avg sched"
    by (simp add: calculate_statistics_def avg_shifts_spec)
  have var: "fairness_variance (fairness (stat_optimization_summary (calculate_statistics rnd sched)))
               = rnd (spec_variance sched) 2" if "sched \<noteq> []"
    using that by (simp add: calculate_statistics_def shift_values_empty variance_spec)
  have reported:
    "\<bar>fairness_variance (fairness (stat_optimization_summary (calculate_statistics rnd sched)))
        - spec_variance sched\<bar> \<le> 1 / 200
     \<and> (\<exists>k::int. fairness_variance
                     (fairness (stat_optimization_summary (calculate_statistics rnd sched)))
                   = of_int k / 100)" if "sched \<noteq> []"
    unfolding var [OF that] using round_two_decimals [OF assms, of "spec_variance sched"] by blast
  have empty: "min_shifts_per_employee (calculate_statistics rnd []) = 0"
    "max_shifts_per_employee (calculate_statistics rnd []) = 0"
    "avg_shifts_per_employee (calculate_statistics rnd []) = 0"
    "fairness_variance (fairness (stat_optimization_summary (calculate_statistics rnd []))) = 0"
    using employee_shifts_empty [of "[]"] shift_values_empty [of "[]"]
    by (simp_all add: calculate_statistics_def avg_shifts_def)
  show ?thesis
    using min_max_shifts [of sched rnd] avg reported variance_spec [of sched] empty by auto
qed

lemma scheduled_uneven: "scheduled_employees sched_uneven = {IdStr ''E1'', IdStr ''E2''}"
  by (auto simp: scheduled_employees_def sched_uneven_def assign_def)

lemma cnt_uneven: "cnt_e sched_uneven (IdStr ''E1'') = 2" "cnt_e sched_uneven (IdStr ''E2'') = 1"
  by (simp_all add: cnt_e_def sched_uneven_def assign_def)

theorem fairness_statistics_over_scheduled_witness:
  "round_contract round_half_even
   \<and> sched_uneven \<noteq> []
   \<and> min_shifts_per_employee (calculate_statistics round_half_even sched_uneven) = 1
   \<and> max_shifts_per_employee (calculate_statistics round_half_even sched_uneven) = 2
   \<and> avg_shifts_per_employee (calculate_statistics round_half_even sched_uneven) = 3 / 2
   \<and> variance sched_uneven = 1 / 4
   \<and> \<bar>fairness_variance
         (fairness (stat_optimization_summary (calculate_statistics round_half_even sched_uneven)))
       - 1 / 4\<bar> \<le> 1 / 200"
proof -
  have ne: "sched_uneven \<noteq> []" by (simp add: sched_uneven_def)
  have avg: "spec_avg sched_uneven = 3 / 2"
    by (simp add: spec_avg_def scheduled_uneven cnt_uneven)
  have var: "spec_variance sched_uneven = 1 / 4"
    by (simp add: spec_variance_def avg scheduled_uneven cnt_uneven power2_eq_square)
  show ?thesis
    using fairness_statistics_over_scheduled [OF round_half_even_contract, of sched_uneven]
      round_half_even_contract ne avg var
    by (simp add: scheduled_uneven cnt_uneven)
qed

text \<open>
  The claim as stated fails: in the result for the example the fifth employee has no
  assignment, so the least count over all input employees is 0, but the reported minimum
  is 14.
\<close>

theorem min_over_all_employees_counterexample:
  "feasible (build_model sch_y) val_y
   \<and> (\<forall>rnd. \<exists>r. generate_schedule sch_y ''t'' solve_y rnd = Inr r
        \<and> cnt_e (schedule r) (IdStr ''E5'') = 0
        \<and> IdStr ''E5'' \<in> e_id ` set (employees sch_y)
        \<and> Min (cnt_e (schedule r) ` e_id ` set (employees sch_y)) = 0
        \<and> min_shifts_per_employee (res_statistics r) = 14)"
proof -
  have run: "\<exists>r. generate_schedule sch_y ''t'' solve_y rnd = Inr r
        \<and> cnt_e (schedule r) (IdStr ''E5'') = 0
        \<and> IdStr ''E5'' \<in> e_id ` set (employees sch_y)
        \<and> Min (cnt_e (schedule r) ` e_id ` set (employees sch_y)) = 0
        \<and> min_shifts_per_employee (res_statistics r) = 14" for rnd
  proof -
    obtain r where r: "generate_schedule sch_y ''t'' solve_y rnd = Inr r"
      and sched: "schedule r = extract_schedule sch_y (shift_vars sch_y) val_y"
      and stats: "res_statistics r = calculate_statistics rnd (schedule r)"
      using generate_y [of "''t''" rnd] by blast
    have idle: "cnt_e (schedule r) (IdStr ''E5'') = 0"
      unfolding sched by (rule cnt_e_idle_y)
    have input: "IdStr ''E5'' \<in> e_id ` set (employees sch_y)"
      by (simp add: employees_y emp_with_def)
    have "0 \<in> cnt_e (schedule r) ` e_id ` set (employees sch_y)"
      using idle input by (metis imageI)
    then have least: "Min (cnt_e (schedule r) ` e_id ` set (employees sch_y)) = 0"
      by (intro Min_eqI) auto
    have "min_shifts_per_employee (res_statistics r) = 14"
      unfolding stats sched
      by (simp add: calculate_statistics_def employee_shifts_y)
    then show ?thesis
      using r idle input least by blast
  qed
  show ?thesis
    using feasible_y run by blast
qed

section \<open>The load balance score\<close>

lemma finite_scheduled: "finite (scheduled_employees sched)"
  by (simp add: scheduled_employees_def)

lemma scheduled_empty: "scheduled_employees sched = {} \<longleftrightarrow> sched = []"
  by (simp add: scheduled_employees_def)

lemma spec_avg_pos:
  assumes "sched \<noteq> []"
  shows "0 < spec_avg sched"
proof -
  have "0 < (\<Sum>emp\<in>scheduled_employees sched. real (cnt_e sched emp))"
    using assms cnt_e_positive [of _ sched]
    by (intro sum_pos) (simp_all add: finite_scheduled scheduled_empty)
  moreover have "0 < card (scheduled_employees sched)"
    using assms by (simp add: card_gt_0_iff finite_scheduled scheduled_empty)
  ultimately show ?thesis by (simp add: spec_avg_def)
qed

lemma spec_variance_nonneg: "0 \<le> spec_variance sched"
  by (simp add: spec_variance_def sum_nonneg)

lemma spec_variance_zero_iff:
  assumes "sched \<noteq> []"
  shows "spec_variance sched = 0 \<longleftrightarrow>
           (\<forall>emp\<in>scheduled_employees sched. real (cnt_e sched emp) = spec_avg sched)"
proof -
  have "0 < card (scheduled_employees sched)"
    using assms by (simp add: card_gt_0_iff finite_scheduled scheduled_empty)
  then have "spec_variance sched = 0 \<longleftrightarrow>
      (\<Sum>emp\<in>scheduled_employees sched. (real (cnt_e sched emp) - spec_avg sched) ^ 2) = 0"
    by (simp add: spec_variance_def)
  also have "\<dots> \<longleftrightarrow> (\<forall>emp\<in>scheduled_employees sched. (real (cnt_e sched emp) - spec_avg sched) ^ 2 = 0)"
    by (intro sum_nonneg_eq_0_iff) (simp_all add: finite_scheduled)
  finally show ?thesis by simp
qed

lemma counts_equal_avg:
  assumes "sched \<noteq> []"
  shows "(\<forall>emp\<in>scheduled_employees sched. real (cnt_e sched emp) = spec_avg sched) \<longleftrightarrow>
         (\<forall>a\<in>scheduled_employees sched. \<forall>b\<in>scheduled_employees sched.
            cnt_e sched a = cnt_e sched b)"
proof
  assume avg: "\<forall>emp\<in>scheduled_employees sched. real (cnt_e sched emp) = spec_avg sched"
  show "\<forall>a\<in>scheduled_employees sched. \<forall>b\<in>scheduled_employees sched.
            cnt_e sched a = cnt_e sched b"
  proof (intro ballI)
    fix a b
    assume "a \<in> scheduled_employees sched" "b \<in> scheduled_employees sched"
    with avg have "real (cnt_e sched a) = real (cnt_e sched b)" by metis
    then show "cnt_e sched a = cnt_e sched b" by (simp only: of_nat_eq_iff)
  qed
next
  assume eq: "\<forall>a\<in>scheduled_employees sched. \<forall>b\<in>scheduled_employees sched.
            cnt_e sched a = cnt_e sched b"
  obtain a where a: "a \<in> scheduled_employees sched"
    using assms scheduled_empty [of sched] by blast
  from eq a have same: "\<forall>emp\<in>scheduled_employees sched. cnt_e sched emp = cnt_e sched a"
    by blast
  have card: "0 < card (scheduled_employees sched)"
    using assms by (simp add: card_gt_0_iff finite_scheduled scheduled_empty)
  have "(\<Sum>emp\<in>scheduled_employees sched. real (cnt_e sched emp))
          = (\<Sum>emp\<in>scheduled_employees sched. real (cnt_e sched a))"
  proof (rule sum.cong)
    show "scheduled_employees sched = scheduled_employees sched" by (rule refl)
  next
    fix emp
    assume "emp \<in> scheduled_employees sched"
    with same have "cnt_e sched emp = cnt_e sched a" by blast
    then show "real (cnt_e sched emp) = real (cnt_e sched a)" by (simp only:)
  qed
  then have mean: "spec_avg sched = real (cnt_e sched a)"
    using card by (simp add: spec_avg_def)
  show "\<forall>emp\<in>scheduled_employees sched. real (cnt_e sched emp) = spec_avg sched"
  proof
    fix emp
    assume "emp \<in> scheduled_employees sched"
    with same have "cnt_e sched emp = cnt_e sched a" by blast
    then show "real (cnt_e sched emp) = spec_avg sched" by (simp only: mean)
  qed
qed

lemma coefficient_of_variation_spec: "coefficient_of_variation sched = spec_cv sched"
proof (cases "sched = []")
  case True
  then have "spec_avg sched = 0" by (simp add: spec_avg_def scheduled_employees_def)
  then show ?thesis
    by (simp add: coefficient_of_variation_def spec_cv_def avg_shifts_spec)
next
  case False
  from spec_avg_pos [OF this] show ?thesis
    by (simp add: coefficient_of_variation_def spec_cv_def avg_shifts_spec std_dev_def variance_spec)
qed

lemma spec_cv_nonneg: "0 \<le> spec_cv sched"
proof (cases "sched = []")
  case True
  then show ?thesis by (simp add: spec_cv_def spec_avg_def scheduled_employees_def)
next
  case False
  from spec_avg_pos [OF this] spec_variance_nonneg [of sched] show ?thesis
    by (simp add: spec_cv_def)
qed

lemma spec_cv_zero_iff:
  assumes "sched \<noteq> []"
  shows "spec_cv sched = 0 \<longleftrightarrow>
         (\<forall>a\<in>scheduled_employees sched. \<forall>b\<in>scheduled_employees sched.
            cnt_e sched a = cnt_e sched b)"
proof -
  have "spec_cv sched = 0 \<longleftrightarrow> spec_variance sched = 0"
    using spec_avg_pos [OF assms] by (simp add: spec_cv_def)
  then show ?thesis
    using spec_variance_zero_iff [OF assms] counts_equal_avg [OF assms] by simp
qed

lemma load_balance_score_spec:
  "load_balance_score sched =
     (if sched = [] then 0 else max 0 (min 100 (100 * (1 - spec_cv sched))))"
  by (simp add: load_balance_score_def shift_values_empty coefficient_of_variation_spec)

lemma load_balance_score_100_iff:
  "load_balance_score sched = 100 \<longleftrightarrow>
     sched \<noteq> [] \<and> (\<forall>a\<in>scheduled_employees sched. \<forall>b\<in>scheduled_employees sched.
            cnt_e sched a = cnt_e sched b)"
proof (cases "sched = []")
  case True
  then show ?thesis by (simp add: load_balance_score_spec)
next
  case False
  have "load_balance_score sched = 100 \<longleftrightarrow> spec_cv sched = 0"
    using spec_cv_nonneg [of sched] False by (auto simp: load_balance_score_spec max_def min_def)
  then show ?thesis using False spec_cv_zero_iff [OF False] by simp
qed

text \<open>
  C6 (as amended). For a schedule that is not empty the load balance score is
  \<open>100 (1 - cv)\<close> clamped to \<open>[0, 100]\<close>, where \<open>cv\<close> is the standard deviation over the mean
  of the counts of the employees that occur in the schedule (0 when the mean is 0); for the
  empty schedule it is 0. The reported score is a multiple of 0.01 at most 0.005 away from
  this value, and lies in \<open>[0, 100]\<close>. Before rounding the score is 100 exactly when the
  schedule is not empty and all these counts are equal, and then the reported score is 100
  too.
\<close>

theorem load_balance_score_characterisation:
  assumes "round_contract rnd"
  shows "load_balance_score sched
       = (if sched = [] then 0 else max 0 (min 100 (100 * (1 - spec_cv sched))))
   \<and> \<bar>stat_load_balance_score (calculate_statistics rnd sched) - load_balance_score sched\<bar>
       \<le> 1 / 200
   \<and> (\<exists>k::int. stat_load_balance_score (calculate_statistics rnd sched) = of_int k / 100)
   \<and> 0 \<le> stat_load_balance_score (calculate_statistics rnd sched)
   \<and> stat_load_balance_score (calculate_statistics rnd sched) \<le> 100
   \<and> (load_balance_score sched = 100 \<longleftrightarrow>
        sched \<noteq> [] \<and> (\<forall>a\<in>scheduled_employees sched. \<forall>b\<in>scheduled_employees sched.
                          cnt_e sched a = cnt_e sched b))
   \<and> (sched \<noteq> [] \<and> (\<forall>a\<in>scheduled_employees sched. \<forall>b\<in>scheduled_employees sched.
                          cnt_e sched a = cnt_e sched b)
        \<longrightarrow> stat_load_balance_score (calculate_statistics rnd sched) = 100)"
proof -
  have reported: "stat_load_balance_score (calculate_statistics rnd sched)
                    = rnd (load_balance_score sched) 2"
    by (simp add: calculate_statistics_def)
  have range: "0 \<le> load_balance_score sched" "load_balance_score sched \<le> 100"
    by (simp_all add: load_balance_score_def)
  then have rounded: "0 \<le> rnd (load_balance_score sched) 2"
    "rnd (load_balance_score sched) 2 \<le> 100"
    using round_percent [OF assms, of "load_balance_score sched"] by simp_all
  have near: "\<bar>rnd (load_balance_score sched) 2 - load_balance_score sched\<bar> \<le> 1 / 200"
    "\<exists>k::int. rnd (load_balance_score sched) 2 = of_int k / 100"
    by (rule round_two_decimals [OF assms])+
  have balanced: "rnd (load_balance_score sched) 2 = 100"
    if "sched \<noteq> [] \<and> (\<forall>a\<in>scheduled_employees sched. \<forall>b\<in>scheduled_employees sched.
                          cnt_e sched a = cnt_e sched b)"
  proof -
    from that load_balance_score_100_iff [of sched] have "load_balance_score sched = 100"
      by blast
    then show ?thesis by (simp only: round_100 [OF assms])
  qed
  show ?thesis
    unfolding reported
    using load_balance_score_spec [of sched] near rounded load_balance_score_100_iff [of sched]
      balanced
    by blast
qed

lemma scheduled_even: "scheduled_employees sched_even = {IdStr ''E1'', IdStr ''E2''}"
  by (auto simp: scheduled_employees_def sched_even_def assign_def)

lemma cnt_even: "cnt_e sched_even (IdStr ''E1'') = 2" "cnt_e sched_even (IdStr ''E2'') = 2"
  by (simp_all add: cnt_e_def sched_even_def assign_def)

theorem load_balance_score_characterisation_witness:
  "round_contract round_half_even
   \<and> sched_even \<noteq> []
   \<and> cnt_e sched_even (IdStr ''E1'') = cnt_e sched_even (IdStr ''E2'')
   \<and> load_balance_score sched_even = 100
   \<and> stat_load_balance_score (calculate_statistics round_half_even sched_even) = 100"
proof -
  have ne: "sched_even \<noteq> []" by (simp add: sched_even_def)
  have eq: "\<forall>a\<in>scheduled_employees sched_even. \<forall>b\<in>scheduled_employees sched_even.
              cnt_e sched_even a = cnt_e sched_even b"
    by (simp add: scheduled_even cnt_even)
  from load_balance_score_characterisation [OF round_half_even_contract, of sched_even] ne eq
  have "load_balance_score sched_even = 100
        \<and> stat_load_balance_score (calculate_statistics round_half_even sched_even) = 100"
    by blast
  then show ?thesis using ne round_half_even_contract by (simp add: cnt_even)
qed

text \<open>
  The claim as stated fails on the empty schedule: no employee occurs, so all counts are
  equal and the formula of the claim gives 100, but the score is 0.
\<close>

theorem empty_schedule_score_counterexample:
  "scheduled_employees [] = {}
   \<and> max 0 (min 100 (100 * (1 - spec_cv []))) = (100 :: real)
   \<and> load_balance_score [] = 0
   \<and> stat_load_balance_score (calculate_statistics round_half_even []) = 0
   \<and> stat_load_balance_score (calculate_statistics round_half_even []) \<noteq> 100"
proof -
  have "spec_cv [] = 0"
    by (simp add: spec_cv_def spec_avg_def scheduled_employees_def)
  moreover have "load_balance_score [] = 0"
    by (simp add: load_balance_score_spec)
  ultimately show ?thesis
    by (simp add: calculate_statistics_def round_0 [OF round_half_even_contract]
        scheduled_employees_def)
qed

section \<open>The shift types of each employee\<close>

lemma setdefault_lookup:
  "map_of (setdefault k v d) k' = (if k' = k \<and> k \<notin> fst ` set d then Some v else map_of d k')"
  by (auto simp: setdefault_def update_conv' map_of_eq_None_iff)

lemma distinct_setdefault:
  "distinct (map fst d) \<Longrightarrow> distinct (map fst (setdefault k v d))"
  by (simp add: setdefault_def distinct_update)

lemma shift_types_body_lookup:
  "map_of (snd (snd (employee_loop_body a st))) k =
     (if k = employee_id a
      then Some (count_into (shift_id a) (dict_get (snd (snd st)) k []))
      else map_of (snd (snd st)) k)"
proof -
  obtain es el est where st: "st = (es, el, est)" by (cases st) auto
  have get: "dict_get (setdefault (employee_id a) [] est) (employee_id a) [] = dict_get est (employee_id a) []"
  proof (cases "employee_id a \<in> fst ` set est")
    case True
    then show ?thesis by (simp add: setdefault_def)
  next
    case False
    then have "map_of est (employee_id a) = None" by (simp add: map_of_eq_None_iff)
    then show ?thesis using False by (simp add: dict_get_def setdefault_lookup)
  qed
  show ?thesis
    by (simp add: st employee_loop_body_def Let_def update_conv' get setdefault_lookup)
qed

lemma shift_types_body_distinct:
  assumes "distinct (map fst (snd (snd st)))"
  shows "distinct (map fst (snd (snd (employee_loop_body a st))))"
proof -
  obtain es el est where st: "st = (es, el, est)" by (cases st) auto
  show ?thesis
    using assms by (simp add: st employee_loop_body_def Let_def distinct_update distinct_setdefault)
qed

lemma shift_types_fold_lookup:
  "map_of (snd (snd (fold employee_loop_body xs st))) k =
     (if k \<in> employee_id ` set xs
      then Some (fold (\<lambda>a. count_into (shift_id a)) (filter (\<lambda>a. employee_id a = k) xs)
                   (dict_get (snd (snd st)) k []))
      else map_of (snd (snd st)) k)"
proof (induction xs arbitrary: st)
  case Nil
  then show ?case by simp
next
  case (Cons x xs)
  let ?st = "employee_loop_body x st"
  have get: "dict_get (snd (snd ?st)) k [] =
               (if k = employee_id x then count_into (shift_id x) (dict_get (snd (snd st)) k [])
                else dict_get (snd (snd st)) k [])"
    by (simp add: dict_get_def shift_types_body_lookup)
  show ?case
  proof (cases "k = employee_id x")
    case True
    show ?thesis
    proof (cases "k \<in> employee_id ` set xs")
      case True
      then show ?thesis
        using Cons.IH [of ?st] get \<open>k = employee_id x\<close> by simp
    next
      case False
      then have "filter (\<lambda>a. employee_id a = k) xs = []"
        by (auto simp: filter_empty_conv)
      then show ?thesis
        using Cons.IH [of ?st] False \<open>k = employee_id x\<close>
        by (simp add: shift_types_body_lookup)
    qed
  next
    case False
    then show ?thesis
      using Cons.IH [of ?st] get by (simp add: shift_types_body_lookup)
  qed
qed

lemma shift_types_fold_distinct:
  "distinct (map fst (snd (snd st))) \<Longrightarrow> distinct (map fst (snd (snd (fold employee_loop_body xs st))))"
  by (induction xs arbitrary: st) (simp_all add: shift_types_body_distinct)

lemma employee_shift_types_lookup:
  "map_of (employee_shift_types sched) emp =
     (if emp \<in> scheduled_employees sched
      then Some (fold (\<lambda>a. count_into (shift_id a)) (filter (\<lambda>a. employee_id a = emp) sched) [])
      else None)"
  by (simp add: employee_shift_types_def employee_loop_def shift_types_fold_lookup
      scheduled_employees_def dict_get_def)

lemma employee_shift_types_distinct: "distinct (map fst (employee_shift_types sched))"
  by (simp add: employee_shift_types_def employee_loop_def shift_types_fold_distinct)

lemma employee_shift_types_keys:
  "fst ` set (employee_shift_types sched) = scheduled_employees sched"
proof -
  have "k \<in> fst ` set (employee_shift_types sched) \<longleftrightarrow> k \<in> scheduled_employees sched" for k
    using employee_shift_types_lookup [of sched k]
    by (metis map_of_eq_None_iff option.distinct(1))
  then show ?thesis by blast
qed

text \<open>The dictionary of one employee's shift types.\<close>

lemma shift_dist_distinct:
  "distinct (map fst (fold (\<lambda>a. count_into (shift_id a)) (filter (\<lambda>a. employee_id a = emp) sched) []))"
  by (rule count_dict_distinct)

lemma shift_dist_keys:
  "fst ` set (fold (\<lambda>a. count_into (shift_id a)) (filter (\<lambda>a. employee_id a = emp) sched) [])
     = shift_types_of sched emp"
  by (simp add: count_dict_keys shift_types_of_def)

lemma shift_dist_lookup:
  assumes "sh \<in> shift_types_of sched emp"
  shows "the (map_of (fold (\<lambda>a. count_into (shift_id a)) (filter (\<lambda>a. employee_id a = emp) sched) []) sh)
           = shift_cnt sched emp sh"
  using assms by (simp add: count_dict_lookup shift_types_of_def shift_cnt_def)

lemma shift_dist_total:
  "sum_list (map snd (fold (\<lambda>a. count_into (shift_id a)) (filter (\<lambda>a. employee_id a = emp) sched) []))
     = cnt_e sched emp"
  by (simp add: sum_fold_count_into cnt_e_def)

section \<open>Entropy and diversity score\<close>

lemma shift_types_subset: "shift_types_of sched emp \<subseteq> shift_id ` set sched"
  by (auto simp: shift_types_of_def)

lemma shift_cnt_positive_iff: "0 < shift_cnt sched emp sh \<longleftrightarrow> sh \<in> shift_types_of sched emp"
  by (auto simp: shift_cnt_def shift_types_of_def filter_empty_conv)

lemma shift_share_zero:
  "sh \<notin> shift_types_of sched emp \<Longrightarrow> shift_share sched emp sh = 0"
  using shift_cnt_positive_iff [of sched emp sh] by (simp add: shift_share_def)

lemma spec_entropy_types:
  "spec_entropy sched emp =
     - (\<Sum>sh\<in>shift_types_of sched emp. shift_share sched emp sh * log 2 (shift_share sched emp sh))"
proof -
  let ?g = "\<lambda>sh. if shift_share sched emp sh = 0 then 0
                  else shift_share sched emp sh * log 2 (shift_share sched emp sh)"
  have "(\<Sum>sh\<in>shift_types_of sched emp. ?g sh) = (\<Sum>sh\<in>shift_id ` set sched. ?g sh)"
    by (rule sum.mono_neutral_left) (auto simp: shift_types_subset [THEN subsetD] shift_share_zero)
  moreover have "(\<Sum>sh\<in>shift_types_of sched emp. ?g sh)
      = (\<Sum>sh\<in>shift_types_of sched emp. shift_share sched emp sh * log 2 (shift_share sched emp sh))"
    by (rule sum.cong) simp_all
  ultimately show ?thesis by (simp add: spec_entropy_def)
qed

lemma entropy_spec:
  "entropy (fold (\<lambda>a. count_into (shift_id a)) (filter (\<lambda>a. employee_id a = emp) sched) [])
     = spec_entropy sched emp"
proof -
  let ?d = "fold (\<lambda>a. count_into (shift_id a)) (filter (\<lambda>a. employee_id a = emp) sched) []"
  let ?g = "\<lambda>count. if 0 < count
                     then real count / real (cnt_e sched emp) * log 2 (real count / real (cnt_e sched emp))
                     else 0"
  have "sum_list (map (?g \<circ> snd) ?d) = (\<Sum>sh\<in>fst ` set ?d. ?g (the (map_of ?d sh)))"
    by (rule sum_list_dict_values) (rule shift_dist_distinct)
  also have "\<dots> = (\<Sum>sh\<in>shift_types_of sched emp. ?g (shift_cnt sched emp sh))"
    unfolding shift_dist_keys by (rule sum.cong) (simp_all add: shift_dist_lookup)
  also have "\<dots> = (\<Sum>sh\<in>shift_types_of sched emp.
                        shift_share sched emp sh * log 2 (shift_share sched emp sh))"
    by (rule sum.cong) (simp_all add: shift_cnt_positive_iff shift_share_def)
  finally have "sum_list (map (?g \<circ> snd) ?d) = - spec_entropy sched emp"
    by (simp add: spec_entropy_types)
  then show ?thesis
    by (simp add: entropy_def Let_def shift_dist_total comp_def)
qed

lemma max_entropy_pos: "0 < max_entropy"
  by (simp add: max_entropy_def)

lemma diversity_score_spec:
  "diversity_score (fold (\<lambda>a. count_into (shift_id a)) (filter (\<lambda>a. employee_id a = emp) sched) [])
     = 100 * spec_entropy sched emp / log 2 3"
  using max_entropy_pos by (simp add: diversity_score_def entropy_spec max_entropy_def)

lemma shift_diversity_scores_all:
  "shift_diversity_scores sched = map (diversity_score \<circ> snd) (employee_shift_types sched)"
proof -
  have pos: "0 < sum_list (map snd (snd p))" if "p \<in> set (employee_shift_types sched)" for p
  proof -
    have "fst p \<in> scheduled_employees sched"
      using that employee_shift_types_keys [of sched] by blast
    moreover from this have "snd p = fold (\<lambda>a. count_into (shift_id a))
                                   (filter (\<lambda>a. employee_id a = fst p) sched) []"
      using dict_value_lookup [OF employee_shift_types_distinct that]
      by (simp add: employee_shift_types_lookup)
    ultimately show ?thesis
      using cnt_e_positive [of "fst p" sched] by (simp add: shift_dist_total)
  qed
  have "concat (map (\<lambda>p. if 0 < sum_list (map snd (snd p)) then [diversity_score (snd p)] else []) ps)
          = map (diversity_score \<circ> snd) ps"
    if "\<And>p. p \<in> set ps \<Longrightarrow> 0 < sum_list (map snd (snd p))" for ps :: "(ident \<times> (ident \<times> nat) list) list"
    using that by (induction ps) simp_all
  from this [OF pos] show ?thesis
    by (simp add: shift_diversity_scores_def case_prod_unfold)
qed

lemma avg_shift_diversity_spec: "avg_shift_diversity sched = spec_avg_shift_diversity 3 sched"
proof (cases "sched = []")
  case True
  then show ?thesis
    by (simp add: avg_shift_diversity_def shift_diversity_scores_all spec_avg_shift_diversity_def
        employee_shift_types_def employee_loop_def)
next
  case False
  let ?d = "employee_shift_types sched"
  have nonempty: "?d \<noteq> []"
    using False employee_shift_types_keys [of sched] scheduled_empty [of sched] by auto
  have "sum_list (map (diversity_score \<circ> snd) ?d)
          = (\<Sum>emp\<in>fst ` set ?d. diversity_score (the (map_of ?d emp)))"
    by (rule sum_list_dict_values) (rule employee_shift_types_distinct)
  also have "\<dots> = (\<Sum>emp\<in>scheduled_employees sched. 100 * spec_entropy sched emp / log 2 3)"
    unfolding employee_shift_types_keys
    by (rule sum.cong) (simp_all add: employee_shift_types_lookup diversity_score_spec)
  finally have total: "sum_list (map (diversity_score \<circ> snd) ?d)
          = (\<Sum>emp\<in>scheduled_employees sched. 100 * spec_entropy sched emp / log 2 3)" .
  have "length ?d = card (scheduled_employees sched)"
    using length_dict [OF employee_shift_types_distinct, of sched]
    by (simp add: employee_shift_types_keys)
  then show ?thesis
    using False nonempty total
    by (simp add: avg_shift_diversity_def shift_diversity_scores_all spec_avg_shift_diversity_def)
qed

section \<open>The shift type diversity\<close>

lemma log_2_quarter: "log 2 (1 / 4 :: real) = - 2"
proof -
  have "log 2 (4::real) = log 2 (2 ^ 2)" by simp
  also have "\<dots> = 2" by (simp only: log_pow_cancel)
  finally have "log 2 (4::real) = 2" .
  then show ?thesis by (simp add: log_divide)
qed

lemma log_2_3_lower: "84 / 53 < log 2 (3::real)"
proof -
  have "(84::real) = log 2 (2 ^ 84)" by (simp only: log_pow_cancel)
  also have "\<dots> < log 2 (3 ^ 53)"
    by (subst log_less_cancel_iff) simp_all
  also have "\<dots> = real 53 * log 2 3" by (rule log_nat_power) simp
  finally show ?thesis by simp
qed

lemma log_2_3_upper: "log 2 (3::real) < 485 / 306"
proof -
  have "real 306 * log 2 (3::real) = log 2 (3 ^ 306)"
    by (rule log_nat_power [symmetric]) simp
  also have "\<dots> < log 2 (2 ^ 485)"
    by (subst log_less_cancel_iff) simp_all
  also have "\<dots> = 485" by (simp only: log_pow_cancel)
  finally show ?thesis by simp
qed

lemma employee_shift_types_four:
  "employee_shift_types sched_four =
     [(IdStr ''E1'', [(IdStr ''morning'', 1), (IdStr ''evening'', 1), (IdStr ''afternoon'', 1),
                      (IdStr ''night'', 1)])]"
  by (simp add: employee_shift_types_def employee_loop_def employee_loop_body_def sched_four_def
      assign_def setdefault_def count_into_def dict_get_def Let_def)

lemma avg_shift_diversity_four: "avg_shift_diversity sched_four = 200 / log 2 3"
  by (simp add: avg_shift_diversity_def shift_diversity_scores_def employee_shift_types_four
      diversity_score_def entropy_def max_entropy_def log_2_quarter)

lemma spec_entropy_four: "spec_entropy sched_four (IdStr ''E1'') = 2"
proof -
  have "fold (\<lambda>a. count_into (shift_id a)) (filter (\<lambda>a. employee_id a = IdStr ''E1'') sched_four) []
          = [(IdStr ''morning'', 1), (IdStr ''evening'', 1), (IdStr ''afternoon'', 1),
             (IdStr ''night'', 1)]"
    by (simp add: sched_four_def assign_def count_into_def dict_get_def)
  then have "entropy [(IdStr ''morning'', 1), (IdStr ''evening'', 1), (IdStr ''afternoon'', 1),
                      (IdStr ''night'', 1)]
               = spec_entropy sched_four (IdStr ''E1'')"
    using entropy_spec [of "IdStr ''E1''" sched_four] by simp
  then show ?thesis by (simp add: entropy_def log_2_quarter)
qed

lemma spec_avg_shift_diversity_four: "spec_avg_shift_diversity 4 sched_four = 100"
proof -
  have "log 2 (4::real) = 2"
    using log_2_quarter by (simp add: log_divide)
  moreover have "scheduled_employees sched_four = {IdStr ''E1''}" "sched_four \<noteq> []"
    by (simp_all add: scheduled_employees_def sched_four_def assign_def)
  ultimately show ?thesis
    by (simp add: spec_avg_shift_diversity_def spec_entropy_four)
qed

lemma avg_shift_diversity_four_bounds:
  "(of_int 12619 - 1 / 2) / 10 ^ 2 < avg_shift_diversity sched_four"
  "avg_shift_diversity sched_four < (of_int 12619 + 1 / 2) / 10 ^ 2"
proof -
  have pos: "0 < log 2 (3::real)" by simp
  have "126185 * log 2 (3::real) < 200000"
    using log_2_3_upper by simp
  then show "(of_int 12619 - 1 / 2) / 10 ^ 2 < avg_shift_diversity sched_four"
    using pos by (simp add: avg_shift_diversity_four field_simps)
  have "200000 < 126195 * log 2 (3::real)"
    using log_2_3_lower by simp
  then show "avg_shift_diversity sched_four < (of_int 12619 + 1 / 2) / 10 ^ 2"
    using pos by (simp add: avg_shift_diversity_four field_simps)
qed

text \<open>
  C4. The property: \<^verbatim>\<open>avg_shift_diversity\<close> is the mean, over the employees with at least
  one assignment, of the entropy of the employee's shift types normalised by \<open>log 2 S\<close>,
  where \<open>S\<close> is the number of shift types of the template, and it lies in \<open>[0, 100]\<close>. The
  code does not normalise by \<open>log 2 S\<close>: whatever the template, it divides by the constant
  \<open>log 2 3\<close>, so its value is the mean of 100 times the entropy over \<open>log 2 3\<close>. In the
  example the schedule has four shift types and the employee works each of them once: the
  entropy is 2, normalising by \<open>log 2 4\<close> gives 100, and the code's value is \<open>200 / log 2 3\<close>,
  reported as 126.19, outside the range 0 to 100 that the code's comment states.
\<close>

theorem avg_shift_diversity_above_100:
  assumes "round_contract rnd"
  shows "avg_shift_diversity sched = spec_avg_shift_diversity 3 sched
       \<and> card (shift_id ` set sched_four) = 4
       \<and> spec_avg_shift_diversity 4 sched_four = 100
       \<and> avg_shift_diversity sched_four = 200 / log 2 3
       \<and> stat_avg_shift_diversity (calculate_statistics rnd sched_four) = 12619 / 100
       \<and> \<not> stat_avg_shift_diversity (calculate_statistics rnd sched_four) \<le> 100"
proof -
  have types: "card (shift_id ` set sched_four) = 4"
    by (simp add: sched_four_def assign_def)
  have "rnd (avg_shift_diversity sched_four) 2 = of_int 12619 / 10 ^ 2"
    using assms avg_shift_diversity_four_bounds by (rule round_unique)
  then have reported: "stat_avg_shift_diversity (calculate_statistics rnd sched_four) = 12619 / 100"
    by (simp add: calculate_statistics_def)
  then have "\<not> stat_avg_shift_diversity (calculate_statistics rnd sched_four) \<le> 100"
    by simp
  with types reported show ?thesis
    using avg_shift_diversity_spec [of sched] spec_avg_shift_diversity_four
      avg_shift_diversity_four
    by simp
qed

theorem avg_shift_diversity_above_100_witness:
  "round_contract round_half_even
   \<and> stat_avg_shift_diversity (calculate_statistics round_half_even sched_four) = 12619 / 100
   \<and> \<not> stat_avg_shift_diversity (calculate_statistics round_half_even sched_four) \<le> 100"
  using avg_shift_diversity_above_100 [OF round_half_even_contract, of sched_four]
    round_half_even_contract
  by simp

end
